theory Spec2Isabelle
  imports Complex_Main "HOL-Library.AList" "HOL-Library.Multiset"
begin

section \<open>Values and errors\<close>

text \<open>
  Session records, update objects and broadcast payloads are plain JavaScript objects that
  travel through \<^verbatim>\<open>JSON.stringify\<close> and \<^verbatim>\<open>JSON.parse\<close>. They are modelled as JSON values; an
  object is an association list whose order is the insertion order of its keys, which is what
  \<^verbatim>\<open>Object.values\<close> and the spread operator observe.
\<close>

datatype json =
    JNull
  | JBool bool
  | JNum rat
  | JStr string
  | JArr "json list"
  | JObj "(string \<times> json) list"

type_synonym SessionData = "(string \<times> json) list"

text \<open>
  Every \<^verbatim>\<open>throw\<close> of the services is a value of this type. \<open>NotFound\<close> is
  \<^verbatim>\<open>Error(`Session ${id} not found`)\<close>, \<open>NoChunks\<close> is
  \<^verbatim>\<open>Error(`No ${type} chunks found for session ${id}`)\<close>, \<open>StorageFailure\<close> is a rejected
  \<^verbatim>\<open>fs\<close> call, \<open>StageFailed\<close> a rejected gateway call and \<open>TypeError\<close> the spread of a value
  that is not iterable.
\<close>

datatype error =
    NotFound string
  | NoChunks string string
  | StorageFailure string
  | StageFailed string
  | TypeError string

fun message :: "error \<Rightarrow> string" where
  "message (NotFound sid) = ''Session '' @ sid @ '' not found''"
| "message (NoChunks ty sid) = ''No '' @ ty @ '' chunks found for session '' @ sid"
| "message (StorageFailure m) = m"
| "message (StageFailed m) = m"
| "message (TypeError m) = m"

text \<open>JavaScript truthiness of a JSON value, as tested by \<^verbatim>\<open>||\<close> and \<^verbatim>\<open>&&\<close>.\<close>

fun truthy :: "json \<Rightarrow> bool" where
  "truthy JNull = False"
| "truthy (JBool b) = b"
| "truthy (JNum n) = (n \<noteq> 0)"
| "truthy (JStr s) = (s \<noteq> [])"
| "truthy (JArr xs) = True"
| "truthy (JObj kvs) = True"

text \<open>
  The array spread \<^verbatim>\<open>[...v]\<close>: an array gives its elements, a string its characters, and
  any other value is not iterable.
\<close>

fun iterate :: "json \<Rightarrow> error + json list" where
  "iterate (JArr xs) = Inr xs"
| "iterate (JStr s) = Inr (map (\<lambda>c. JStr [c]) s)"
| "iterate v = Inl (TypeError ''object is not iterable'')"

text \<open>
  The object spread \<^verbatim>\<open>{...a, ...b}\<close>: the keys of \<open>b\<close> are copied over \<open>a\<close> one after the
  other; a key of \<open>a\<close> keeps its position, a new key goes to the end.
\<close>

definition spread :: "(string \<times> json) list \<Rightarrow> (string \<times> json) list \<Rightarrow> (string \<times> json) list" where
  "spread a b = fold (\<lambda>(k, v). AList.update k v) b a"

section \<open>Session Store (SessionManager.ts)\<close>

record SessionsStore =
  sessions :: "(string \<times> SessionData) list"
  lastUpdated :: string

text \<open>
  What the path \<^verbatim>\<open>config.sessionsFile\<close> holds: nothing, text that \<^verbatim>\<open>JSON.parse\<close> rejects
  (or a file that cannot be read), or the text of a store (\<^verbatim>\<open>JSON.parse\<close> after
  \<^verbatim>\<open>JSON.stringify\<close> gives the store back). Text that parses to something other than a
  store is not modelled.
\<close>

datatype file_state = Missing | Unparsable | Stored SessionsStore

text \<open>
  How one call of \<^verbatim>\<open>fs.writeFile(path, data)\<close> ends. The call opens the path with flag
  \<^verbatim>\<open>w\<close>, which truncates the file, and then writes the data: it can succeed, fail before the
  file is opened (the file is as it was), or fail after the truncation (the file holds a proper
  prefix of the pretty-printed object, which does not parse).
\<close>

datatype write_outcome = WriteOk | FailsUnopened | FailsTruncated

text \<open>
  The environment of the Session Store: the store file, the reading of the clock
  (\<^verbatim>\<open>new Date().toISOString()\<close>), how the coming \<^verbatim>\<open>writeFile\<close> calls end (one entry per
  call, an exhausted list means success), and the directories handed to \<^verbatim>\<open>fs.rm\<close>.
\<close>

record world =
  sessionsFile :: file_state
  now :: string
  faults :: "write_outcome list"
  removed :: "string list"

text \<open>\<^verbatim>\<open>config.recordingsDir\<close>, at its default, relative to the working directory.\<close>

definition recordingsDir :: string where
  "recordingsDir = ''recordings''"

definition writeFile :: "SessionsStore \<Rightarrow> 'a world_scheme \<Rightarrow> (error + unit) \<times> 'a world_scheme" where
  "writeFile data w =
     (case faults w of
        [] \<Rightarrow> (Inr (), w\<lparr>sessionsFile := Stored data\<rparr>)
      | WriteOk # fs \<Rightarrow> (Inr (), w\<lparr>sessionsFile := Stored data, faults := fs\<rparr>)
      | FailsUnopened # fs \<Rightarrow> (Inl (StorageFailure ''EACCES''), w\<lparr>faults := fs\<rparr>)
      | FailsTruncated # fs \<Rightarrow> (Inl (StorageFailure ''ENOSPC''), w\<lparr>sessionsFile := Unparsable, faults := fs\<rparr>))"

definition loadSessions :: "'a world_scheme \<Rightarrow> SessionsStore" where
  "loadSessions w =
     (case sessionsFile w of
        Stored store \<Rightarrow> store
      | _ \<Rightarrow> \<lparr>sessions = [], lastUpdated = now w\<rparr>)"

definition saveSessions :: "SessionsStore \<Rightarrow> 'a world_scheme \<Rightarrow> (error + unit) \<times> 'a world_scheme" where
  "saveSessions store w = writeFile (store\<lparr>lastUpdated := now w\<rparr>) w"

text \<open>The key \<^verbatim>\<open>session.sessionId\<close>; a missing property is the key \<^verbatim>\<open>undefined\<close>.\<close>

definition sessionId_of :: "SessionData \<Rightarrow> string" where
  "sessionId_of session =
     (case map_of session ''sessionId'' of Some (JStr sid) \<Rightarrow> sid | _ \<Rightarrow> ''undefined'')"

text \<open>
  \<^verbatim>\<open>store.sessions\<close> is a plain object, and the source reads it with
  \<^verbatim>\<open>store.sessions[sessionId]\<close>: the read finds the record stored under the key (an own
  property), and for a key with no record it finds what every object inherits from
  \<^verbatim>\<open>Object.prototype\<close> under the names below. An inherited value is a function
  (\<^verbatim>\<open>Object.prototype\<close> itself for \<^verbatim>\<open>__proto__\<close>): it is truthy and has no enumerable
  property of its own.
\<close>

definition inherited :: "string list" where
  "inherited =
     [''constructor'', ''__defineGetter__'', ''__defineSetter__'', ''hasOwnProperty'',
      ''__lookupGetter__'', ''__lookupSetter__'', ''isPrototypeOf'', ''propertyIsEnumerable'',
      ''toString'', ''valueOf'', ''__proto__'', ''toLocaleString'']"

datatype looked_up = Own SessionData | Inherited | Undefined

definition lookup :: "(string \<times> SessionData) list \<Rightarrow> string \<Rightarrow> looked_up" where
  "lookup obj key =
     (case map_of obj key of
        Some record \<Rightarrow> Own record
      | None \<Rightarrow> if key \<in> set inherited then Inherited else Undefined)"

text \<open>The enumerable own properties of what a read found: what the object spread copies.\<close>

fun enumerable :: "looked_up \<Rightarrow> SessionData" where
  "enumerable (Own record) = record"
| "enumerable Inherited = []"
| "enumerable Undefined = []"

text \<open>
  The assignment \<^verbatim>\<open>store.sessions[key] = value\<close>: it replaces or adds the own property,
  except that for the key \<^verbatim>\<open>__proto__\<close> with no own property the inherited setter runs,
  which replaces the prototype of \<^verbatim>\<open>store.sessions\<close> and adds no property, so that
  \<^verbatim>\<open>JSON.stringify\<close> writes nothing for it.
\<close>

definition assign :: "(string \<times> SessionData) list \<Rightarrow> string \<Rightarrow> SessionData \<Rightarrow> (string \<times> SessionData) list" where
  "assign obj key v =
     (if key = ''__proto__'' \<and> map_of obj key = None then obj else AList.update key v obj)"

definition createSession :: "SessionData \<Rightarrow> 'a world_scheme \<Rightarrow> (error + SessionData) \<times> 'a world_scheme" where
  "createSession session w =
     (let store = loadSessions w;
          store' = store\<lparr>sessions := assign (sessions store) (sessionId_of session) session\<rparr>
      in case saveSessions store' w of
           (Inl e, w') \<Rightarrow> (Inl e, w')
         | (Inr u, w') \<Rightarrow> (Inr session, w'))"

text \<open>
  \<open>None\<close> is the \<^verbatim>\<open>null\<close> that \<^verbatim>\<open>getSession\<close> and \<^verbatim>\<open>updateSession\<close> return. For
  an inherited name without a record \<^verbatim>\<open>getSession\<close> returns the inherited value, which as
  a record is the empty object.
\<close>

definition getSession :: "string \<Rightarrow> 'a world_scheme \<Rightarrow> SessionData option" where
  "getSession sessionId w =
     (case lookup (sessions (loadSessions w)) sessionId of
        Undefined \<Rightarrow> None
      | found \<Rightarrow> Some (enumerable found))"

text \<open>The record that the store file holds under an id.\<close>

definition stored :: "string \<Rightarrow> 'a world_scheme \<Rightarrow> SessionData option" where
  "stored sessionId w = map_of (sessions (loadSessions w)) sessionId"

definition updateSession ::
  "string \<Rightarrow> (string \<times> json) list \<Rightarrow> 'a world_scheme \<Rightarrow> (error + SessionData option) \<times> 'a world_scheme" where
  "updateSession sessionId updates w =
     (let store = loadSessions w
      in case lookup (sessions store) sessionId of
           Undefined \<Rightarrow> (Inr None, w)
         | found \<Rightarrow>
             (let merged = spread (enumerable found) updates;
                  store' = store\<lparr>sessions := assign (sessions store) sessionId merged\<rparr>
              in case saveSessions store' w of
                   (Inl e, w') \<Rightarrow> (Inl e, w')
                 | (Inr u, w') \<Rightarrow> (Inr (Some merged), w')))"

text \<open>
  \<^verbatim>\<open>updateSession\<close> is suspended at \<^verbatim>\<open>await this.loadSessions()\<close>, and other request
  handlers can run before it goes on. \<open>merge_and_save\<close> is what it does when it resumes with
  the store it has loaded (lines 83 to 93); \<open>updateSession\<close> above is the call that nothing
  interrupts.
\<close>

definition merge_and_save ::
  "SessionsStore \<Rightarrow> string \<Rightarrow> (string \<times> json) list \<Rightarrow> 'a world_scheme \<Rightarrow>
   (error + SessionData option) \<times> 'a world_scheme" where
  "merge_and_save store sessionId updates w =
     (case lookup (sessions store) sessionId of
        Undefined \<Rightarrow> (Inr None, w)
      | found \<Rightarrow>
          (let merged = spread (enumerable found) updates;
               store' = store\<lparr>sessions := assign (sessions store) sessionId merged\<rparr>
           in case saveSessions store' w of
                (Inl e, w') \<Rightarrow> (Inl e, w')
              | (Inr u, w') \<Rightarrow> (Inr (Some merged), w')))"

text \<open>\<^verbatim>\<open>store.sessions[sessionId].events || []\<close>, spread into the new array.\<close>

definition stored_events :: "SessionData \<Rightarrow> error + json list" where
  "stored_events s =
     (case map_of s ''events'' of
        None \<Rightarrow> Inr []
      | Some v \<Rightarrow> if truthy v then iterate v else Inr [])"

text \<open>
  \<^verbatim>\<open>appendEvents\<close> assigns to the \<^verbatim>\<open>events\<close> property of what the read found. For a
  stored record that changes the store. For an inherited name without a record the events
  are attached to the inherited object, in the memory of the process and not in the store,
  and the unchanged store is saved; what later reads in the process see of such an object is
  not followed here.
\<close>

definition appendEvents :: "string \<Rightarrow> json list \<Rightarrow> 'a world_scheme \<Rightarrow> (error + unit) \<times> 'a world_scheme" where
  "appendEvents sessionId events w =
     (let store = loadSessions w
      in case lookup (sessions store) sessionId of
           Undefined \<Rightarrow> (Inl (NotFound sessionId), w)
         | Inherited \<Rightarrow> saveSessions store w
         | Own s \<Rightarrow>
             (case stored_events s of
                Inl e \<Rightarrow> (Inl e, w)
              | Inr old \<Rightarrow>
                  (let s' = AList.update ''events'' (JArr (old @ events)) s;
                       store' = store\<lparr>sessions := AList.update sessionId s' (sessions store)\<rparr>
                   in saveSessions store' w)))"

text \<open>
  \<^verbatim>\<open>Object.values(store.sessions).sort((a, b) => b.startTime - a.startTime)\<close>: a stable sort,
  newest first. The model gives the order when every record has, as \<^verbatim>\<open>Date.now()\<close>
  provides, an integer \<^verbatim>\<open>startTime\<close> of magnitude at most \<open>2 ^ 53\<close>; otherwise the
  comparator yields \<^verbatim>\<open>NaN\<close> or works on rounded numbers, the order is the engine's, and
  the model gives \<open>None\<close>.
\<close>

definition sortable :: "SessionData \<Rightarrow> bool" where
  "sortable s =
     (case map_of s ''startTime'' of
        Some (JNum n) \<Rightarrow> of_int \<lfloor>n\<rfloor> = n \<and> \<bar>n\<bar> \<le> 2 ^ 53
      | _ \<Rightarrow> False)"

definition startTime_of :: "SessionData \<Rightarrow> rat" where
  "startTime_of s = (case map_of s ''startTime'' of Some (JNum n) \<Rightarrow> n | _ \<Rightarrow> 0)"

definition listSessions :: "'a world_scheme \<Rightarrow> SessionData list option" where
  "listSessions w =
     (let records = map snd (sessions (loadSessions w))
      in if list_all sortable records
         then Some (sort_key (\<lambda>s. - startTime_of s) records)
         else None)"

text \<open>
  \<^verbatim>\<open>fs.rm(sessionDir, {recursive: true, force: true})\<close> is recorded in \<open>removed\<close>; its failure
  is caught and ignored by the source. \<^verbatim>\<open>delete store.sessions[sessionId]\<close> removes an own
  property only.
\<close>

definition deleteSession :: "string \<Rightarrow> 'a world_scheme \<Rightarrow> (error + bool) \<times> 'a world_scheme" where
  "deleteSession sessionId w =
     (let store = loadSessions w
      in case lookup (sessions store) sessionId of
           Undefined \<Rightarrow> (Inr False, w)
         | found \<Rightarrow>
             (let w1 = w\<lparr>removed := removed w @ [recordingsDir @ ''/'' @ sessionId]\<rparr>;
                  store' = store\<lparr>sessions := AList.delete sessionId (sessions store)\<rparr>
              in case saveSessions store' w1 of
                   (Inl e, w') \<Rightarrow> (Inl e, w')
                 | (Inr u, w') \<Rightarrow> (Inr True, w')))"

section \<open>Chunk Aggregator (ChunkManager.ts)\<close>

datatype media = Video | Audio

fun media_name :: "media \<Rightarrow> string" where
  "media_name Video = ''video''"
| "media_name Audio = ''audio''"

text \<open>The field \<^verbatim>\<open>size\<close> of a chunk is \<open>csize\<close> here, \<open>size\<close> being a constant of HOL.\<close>

record ChunkInfo =
  index :: int
  type :: media
  path :: string
  csize :: nat

record SessionChunks =
  video :: "ChunkInfo list"
  audio :: "ChunkInfo list"

text \<open>
  The aggregator's state is the in-memory \<^verbatim>\<open>chunksMap\<close>; the files it reads and writes are a
  map from paths to contents.
\<close>

record chunk_world =
  chunksMap :: "string \<rightharpoonup> SessionChunks"
  files :: "string \<rightharpoonup> string"

fun chunks_of :: "media \<Rightarrow> SessionChunks \<Rightarrow> ChunkInfo list" where
  "chunks_of Video sc = video sc"
| "chunks_of Audio sc = audio sc"

fun set_chunks :: "media \<Rightarrow> ChunkInfo list \<Rightarrow> SessionChunks \<Rightarrow> SessionChunks" where
  "set_chunks Video cs sc = sc\<lparr>video := cs\<rparr>"
| "set_chunks Audio cs sc = sc\<lparr>audio := cs\<rparr>"

text \<open>
  \<^verbatim>\<open>push\<close>, then \<^verbatim>\<open>sort((a, b) => a.index - b.index)\<close>, which is a stable sort on the index.
\<close>

definition addChunk :: "string \<Rightarrow> ChunkInfo \<Rightarrow> chunk_world \<Rightarrow> chunk_world" where
  "addChunk sessionId chunk cw =
     (let sessionChunks =
            (case chunksMap cw sessionId of
               None \<Rightarrow> \<lparr>video = [], audio = []\<rparr>
             | Some sc \<Rightarrow> sc);
          pushed = chunks_of (type chunk) sessionChunks @ [chunk]
      in cw\<lparr>chunksMap := (chunksMap cw)
             (sessionId \<mapsto> set_chunks (type chunk) (sort_key index pushed) sessionChunks)\<rparr>)"

text \<open>\<^verbatim>\<open>fs.rename\<close>: rejects when the source does not exist.\<close>

definition rename :: "string \<Rightarrow> string \<Rightarrow> (string \<rightharpoonup> string) \<Rightarrow> error + (string \<rightharpoonup> string)" where
  "rename src dst fs =
     (case fs src of
        None \<Rightarrow> Inl (StorageFailure ''ENOENT'')
      | Some data \<Rightarrow> Inr (if src = dst then fs else (fs(dst \<mapsto> data))(src := None)))"

text \<open>
  The loop of \<^verbatim>\<open>mergeChunks\<close>: each chunk file is piped to the end of the output, then
  unlinked (a failing unlink is ignored); a chunk file that cannot be read rejects the merge.
\<close>

fun pipe_chunks ::
  "ChunkInfo list \<Rightarrow> string \<Rightarrow> (string \<rightharpoonup> string) \<Rightarrow> (error + unit) \<times> (string \<rightharpoonup> string)" where
  "pipe_chunks [] outputPath fs = (Inr (), fs)"
| "pipe_chunks (chunk # rest) outputPath fs =
     (case fs (path chunk) of
        None \<Rightarrow> (Inl (StorageFailure ''ENOENT''), fs)
      | Some data \<Rightarrow>
          (let written = (case fs outputPath of None \<Rightarrow> data | Some sofar \<Rightarrow> sofar @ data)
           in pipe_chunks rest outputPath ((fs(outputPath \<mapsto> written))(path chunk := None))))"

text \<open>
  \<^verbatim>\<open>mergeChunks\<close>: no entry or no chunk of the type throws; a single chunk is renamed to the
  output path and the function returns; otherwise \<^verbatim>\<open>createWriteStream\<close> creates or
  truncates the output, the chunks are piped into it in their tracked order, and the tracked
  list of the type is set to the empty list.
\<close>

definition mergeChunks :: "string \<Rightarrow> media \<Rightarrow> chunk_world \<Rightarrow> (error + string) \<times> chunk_world" where
  "mergeChunks sessionId ty cw =
     (case chunksMap cw sessionId of
        None \<Rightarrow> (Inl (NoChunks (media_name ty) sessionId), cw)
      | Some sessionChunks \<Rightarrow>
          (let outputPath = recordingsDir @ ''/'' @ sessionId @ ''/recording_'' @ media_name ty @ ''.webm''
           in case chunks_of ty sessionChunks of
                [] \<Rightarrow> (Inl (NoChunks (media_name ty) sessionId), cw)
              | [chunk] \<Rightarrow>
                  (case rename (path chunk) outputPath (files cw) of
                     Inl e \<Rightarrow> (Inl e, cw)
                   | Inr fs' \<Rightarrow> (Inr outputPath, cw\<lparr>files := fs'\<rparr>))
              | chunks \<Rightarrow>
                  (case pipe_chunks chunks outputPath ((files cw)(outputPath \<mapsto> [])) of
                     (Inl e, fs') \<Rightarrow> (Inl e, cw\<lparr>files := fs'\<rparr>)
                   | (Inr u, fs') \<Rightarrow>
                       (Inr outputPath,
                        cw\<lparr>files := fs',
                           chunksMap := (chunksMap cw)(sessionId \<mapsto> set_chunks ty [] sessionChunks)\<rparr>))))"

section \<open>Processing Pipeline (ProcessingPipeline.ts)\<close>

text \<open>
  The gateways are outside the repository's control: whether Deepgram is configured, what a
  transcription and the combined refine-and-synthesize call give back (or the error they reject
  with), and what the health probe answers (\<^verbatim>\<open>healthCheck\<close> catches every failure and
  answers \<^verbatim>\<open>false\<close>).
\<close>

record TranscriptionResult =
  rawText :: string
  words :: json
  confidence :: json
  duration :: json

record AudioProcessResponse =
  refinedText :: json
  synthesizedAudioPath :: json
  instructions :: json

record gateways =
  isConfigured :: bool
  transcribeFile :: "string \<Rightarrow> error + TranscriptionResult"
  healthCheck :: bool
  processAudio :: "json \<Rightarrow> error + AudioProcessResponse"

text \<open>
  What a run does, in program order: the broadcasts (\<^verbatim>\<open>io.emit\<close>), the store-update calls
  with what the awaited call gave (the merged record, \<^verbatim>\<open>null\<close>, or a rejection), and the
  gateway calls.
\<close>

datatype update_result = Merged | NoSuchSession | Threw

datatype action =
    Emit string json
  | UpdateCall string "(string \<times> json) list" update_result
  | TranscribeCall string
  | HealthCheckCall bool
  | ProcessAudioCall json

record pipeline_world = world +
  trace :: "action list"

definition emit :: "string \<Rightarrow> json \<Rightarrow> pipeline_world \<Rightarrow> pipeline_world" where
  "emit event payload w = w\<lparr>trace := trace w @ [Emit event payload]\<rparr>"

definition emitStatus :: "string \<Rightarrow> string \<Rightarrow> string \<Rightarrow> pipeline_world \<Rightarrow> pipeline_world" where
  "emitStatus sessionId status msg w =
     emit ''session_status''
       (JObj [(''sessionId'', JStr sessionId), (''status'', JStr status), (''message'', JStr msg)]) w"

definition called :: "action \<Rightarrow> pipeline_world \<Rightarrow> pipeline_world" where
  "called a w = w\<lparr>trace := trace w @ [a]\<rparr>"

fun outcome :: "error + SessionData option \<Rightarrow> update_result" where
  "outcome (Inl e) = Threw"
| "outcome (Inr None) = NoSuchSession"
| "outcome (Inr (Some s)) = Merged"

text \<open>\<^verbatim>\<open>await this.sessionManager.updateSession(sessionId, updates)\<close>, entered in the trace.\<close>

definition await_update ::
  "string \<Rightarrow> (string \<times> json) list \<Rightarrow> pipeline_world \<Rightarrow> (error + SessionData option) \<times> pipeline_world" where
  "await_update sessionId updates w =
     (case updateSession sessionId updates w of
        (r, w') \<Rightarrow> (r, called (UpdateCall sessionId updates (outcome r)) w'))"

definition json_of_transcription :: "TranscriptionResult \<Rightarrow> json" where
  "json_of_transcription t =
     JObj [(''rawText'', JStr (rawText t)), (''words'', words t),
           (''confidence'', confidence t), (''duration'', duration t)]"

definition audioPath_of :: "SessionData \<Rightarrow> string" where
  "audioPath_of session = (case map_of session ''audioPath'' of Some (JStr p) \<Rightarrow> p | _ \<Rightarrow> [])"

definition events_or_empty :: "SessionData \<Rightarrow> json" where
  "events_or_empty session =
     (case map_of session ''events'' of
        None \<Rightarrow> JArr []
      | Some v \<Rightarrow> if truthy v then v else JArr [])"

definition refinedScript_of :: "TranscriptionResult \<Rightarrow> AudioProcessResponse \<Rightarrow> json" where
  "refinedScript_of transcription processResult =
     JObj [(''originalText'', JStr (rawText transcription)),
           (''refinedText'', refinedText processResult),
           (''instructions'', instructions processResult)]"

text \<open>
  The body of \<^verbatim>\<open>process\<close> is given in the order of the source, in four pieces: the branch
  taken when the health probe fails (lines 77 to 86), step 4 and step 5 (lines 118 to 134),
  step 3 (lines 89 to 116) which leads into them, and step 2, the probe itself (lines 73 to 76).
\<close>

definition complete_without_ai ::
  "string \<Rightarrow> pipeline_world \<Rightarrow> (error + unit) \<times> pipeline_world" where
  "complete_without_ai sessionId w1 =
     (let w2 = emitStatus sessionId ''completed'' ''Processing complete (AI services unavailable)'' w1
      in case await_update sessionId
                [(''status'', JStr ''completed''), (''processedAt'', JStr (now w2))] w2 of
           (Inl e, w3) \<Rightarrow> (Inl e, w3)
         | (Inr r, w3) \<Rightarrow>
             (Inr (), emit ''session_complete'' (JObj [(''sessionId'', JStr sessionId)]) w3))"

definition synthesize ::
  "string \<Rightarrow> AudioProcessResponse \<Rightarrow> pipeline_world \<Rightarrow> (error + unit) \<times> pipeline_world" where
  "synthesize sessionId processResult w5 =
     (let w6 = emitStatus sessionId ''synthesizing'' ''Generating AI voiceover with ElevenLabs...'' w5
      in case await_update sessionId
                [(''synthesizedAudioPath'', synthesizedAudioPath processResult),
                 (''status'', JStr ''completed''),
                 (''processedAt'', JStr (now w6))] w6 of
           (Inl e, w7) \<Rightarrow> (Inl e, w7)
         | (Inr r, w7) \<Rightarrow>
             (let w8 = emit ''synthesis_ready''
                         (JObj [(''sessionId'', JStr sessionId),
                                (''audioPath'', synthesizedAudioPath processResult)]) w7;
                  w9 = emitStatus sessionId ''completed'' ''Processing complete!'' w8
              in (Inr (), emit ''session_complete'' (JObj [(''sessionId'', JStr sessionId)]) w9)))"

definition refine ::
  "gateways \<Rightarrow> SessionData \<Rightarrow> TranscriptionResult \<Rightarrow> pipeline_world \<Rightarrow> (error + unit) \<times> pipeline_world" where
  "refine env session transcription w1 =
     (let sessionId = sessionId_of session;
          w2 = emitStatus sessionId ''refining'' ''Refining script with Gemini AI...'' w1;
          request = JObj [(''sessionId'', JStr sessionId),
                          (''audioPath'', JStr (audioPath_of session)),
                          (''rawTranscript'', JStr (rawText transcription)),
                          (''domEvents'', events_or_empty session)];
          w3 = called (ProcessAudioCall request) w2
      in case processAudio env request of
           Inl e \<Rightarrow> (Inl e, w3)
         | Inr processResult \<Rightarrow>
             (case await_update sessionId
                     [(''refinedScript'', refinedScript_of transcription processResult),
                      (''status'', JStr ''synthesizing'')] w3 of
                (Inl e, w4) \<Rightarrow> (Inl e, w4)
              | (Inr r, w4) \<Rightarrow>
                  synthesize sessionId processResult
                    (emit ''refinement_ready''
                       (JObj [(''sessionId'', JStr sessionId),
                              (''refinedScript'', refinedScript_of transcription processResult)]) w4)))"

definition enrich ::
  "gateways \<Rightarrow> SessionData \<Rightarrow> TranscriptionResult \<Rightarrow> pipeline_world \<Rightarrow> (error + unit) \<times> pipeline_world" where
  "enrich env session transcription w0 =
     (let pythonHealthy = healthCheck env;
          w1 = called (HealthCheckCall pythonHealthy) w0
      in if \<not> pythonHealthy then complete_without_ai (sessionId_of session) w1
         else refine env session transcription w1)"

text \<open>The body of the \<^verbatim>\<open>try\<close> block: step 1 (transcription), then \<open>enrich\<close>.\<close>

definition process_try ::
  "gateways \<Rightarrow> SessionData \<Rightarrow> pipeline_world \<Rightarrow> (error + unit) \<times> pipeline_world" where
  "process_try env session w0 =
     (let sessionId = sessionId_of session;
          w1 = emitStatus sessionId ''transcribing'' ''Transcribing audio with Deepgram...'' w0;
          transcription = \<lparr>rawText = [], words = JArr [], confidence = JNum 0, duration = JNum 0\<rparr>
      in if audioPath_of session \<noteq> [] \<and> isConfigured env then
           (let w2 = called (TranscribeCall (audioPath_of session)) w1
            in case transcribeFile env (audioPath_of session) of
                 Inl e \<Rightarrow> (Inl e, w2)
               | Inr transcribed \<Rightarrow>
                   (case await_update sessionId
                           [(''transcription'', json_of_transcription transcribed),
                            (''status'', JStr ''transcribing'')] w2 of
                      (Inl e, w3) \<Rightarrow> (Inl e, w3)
                    | (Inr r, w3) \<Rightarrow>
                        enrich env session transcribed
                          (emit ''transcription_ready''
                             (JObj [(''sessionId'', JStr sessionId),
                                    (''transcription'', json_of_transcription transcribed)]) w3)))
         else if \<not> isConfigured env then
           enrich env session transcription
             (emitStatus sessionId ''transcribing'' ''Deepgram not configured, skipping...'' w1)
         else enrich env session transcription w1)"

text \<open>
  \<^verbatim>\<open>process\<close>: the \<^verbatim>\<open>try\<close> block and its \<^verbatim>\<open>catch\<close>. A store update that rejects inside the
  \<^verbatim>\<open>catch\<close> rejects the whole call.
\<close>

definition process ::
  "gateways \<Rightarrow> SessionData \<Rightarrow> pipeline_world \<Rightarrow> (error + unit) \<times> pipeline_world" where
  "process env session w =
     (case process_try env session w of
        (Inr u, w') \<Rightarrow> (Inr (), w')
      | (Inl err, w') \<Rightarrow>
          (case await_update (sessionId_of session)
                  [(''status'', JStr ''error''), (''error'', JStr (message err))] w' of
             (Inl e, w'') \<Rightarrow> (Inl e, w'')
           | (Inr r, w'') \<Rightarrow>
               (Inr (), emit ''error''
                          (JObj [(''sessionId'', JStr (sessionId_of session)),
                                 (''error'', JStr (message err))]) w'')))"

subsection \<open>A run among other request handlers\<close>

text \<open>
  \<^verbatim>\<open>process\<close> is suspended at each \<^verbatim>\<open>await\<close>, and the handlers of other requests run
  in the meantime. The definitions above are the run that nothing else touches. Those that
  follow are the same statements with, at every \<^verbatim>\<open>await\<close>, what the other handlers do to
  the world while the run is suspended there: during a gateway call, and before a store
  update begins to load. A handler that runs between the load and the save of a store update
  of the run is not covered (see \<open>merge_and_save\<close>).
\<close>

datatype await =
    AwaitTranscribe
  | AwaitSaveTranscription
  | AwaitHealth
  | AwaitSaveCompleted
  | AwaitProcessAudio
  | AwaitSaveRefined
  | AwaitSaveSynthesized
  | AwaitSaveError

text \<open>
  The handler of \<^verbatim>\<open>DELETE /api/sessions/:id\<close> (routes/session.ts, lines 64 to 85): it calls
  \<^verbatim>\<open>deleteSession\<close> and, when that returns \<^verbatim>\<open>true\<close>, broadcasts \<^verbatim>\<open>session_deleted\<close>;
  when it returns \<^verbatim>\<open>false\<close> or throws, the handler only answers its own request.
\<close>

definition delete_route :: "string \<Rightarrow> pipeline_world \<Rightarrow> pipeline_world" where
  "delete_route sessionId w =
     (case deleteSession sessionId w of
        (Inr True, w') \<Rightarrow> emit ''session_deleted'' (JObj [(''sessionId'', JStr sessionId)]) w'
      | (r, w') \<Rightarrow> w')"

text \<open>
  The other handlers considered here: the session is deleted while the run is suspended at one
  of the given points, and nothing else happens to the store.
\<close>

definition deleting_at :: "await list \<Rightarrow> string \<Rightarrow> await \<Rightarrow> pipeline_world \<Rightarrow> pipeline_world" where
  "deleting_at points sessionId p = (if p \<in> set points then delete_route sessionId else (\<lambda>w. w))"

definition complete_without_ai_amid ::
  "(await \<Rightarrow> pipeline_world \<Rightarrow> pipeline_world) \<Rightarrow> string \<Rightarrow> pipeline_world \<Rightarrow>
   (error + unit) \<times> pipeline_world" where
  "complete_without_ai_amid others sessionId w1 =
     (let w2 = emitStatus sessionId ''completed'' ''Processing complete (AI services unavailable)'' w1
      in case await_update sessionId
                [(''status'', JStr ''completed''), (''processedAt'', JStr (now w2))]
                (others AwaitSaveCompleted w2) of
           (Inl e, w3) \<Rightarrow> (Inl e, w3)
         | (Inr r, w3) \<Rightarrow>
             (Inr (), emit ''session_complete'' (JObj [(''sessionId'', JStr sessionId)]) w3))"

definition synthesize_amid ::
  "(await \<Rightarrow> pipeline_world \<Rightarrow> pipeline_world) \<Rightarrow> string \<Rightarrow> AudioProcessResponse \<Rightarrow>
   pipeline_world \<Rightarrow> (error + unit) \<times> pipeline_world" where
  "synthesize_amid others sessionId processResult w5 =
     (let w6 = emitStatus sessionId ''synthesizing'' ''Generating AI voiceover with ElevenLabs...'' w5
      in case await_update sessionId
                [(''synthesizedAudioPath'', synthesizedAudioPath processResult),
                 (''status'', JStr ''completed''),
                 (''processedAt'', JStr (now w6))] (others AwaitSaveSynthesized w6) of
           (Inl e, w7) \<Rightarrow> (Inl e, w7)
         | (Inr r, w7) \<Rightarrow>
             (let w8 = emit ''synthesis_ready''
                         (JObj [(''sessionId'', JStr sessionId),
                                (''audioPath'', synthesizedAudioPath processResult)]) w7;
                  w9 = emitStatus sessionId ''completed'' ''Processing complete!'' w8
              in (Inr (), emit ''session_complete'' (JObj [(''sessionId'', JStr sessionId)]) w9)))"

definition refine_amid ::
  "(await \<Rightarrow> pipeline_world \<Rightarrow> pipeline_world) \<Rightarrow> gateways \<Rightarrow> SessionData \<Rightarrow>
   TranscriptionResult \<Rightarrow> pipeline_world \<Rightarrow> (error + unit) \<times> pipeline_world" where
  "refine_amid others env session transcription w1 =
     (let sessionId = sessionId_of session;
          w2 = emitStatus sessionId ''refining'' ''Refining script with Gemini AI...'' w1;
          request = JObj [(''sessionId'', JStr sessionId),
                          (''audioPath'', JStr (audioPath_of session)),
                          (''rawTranscript'', JStr (rawText transcription)),
                          (''domEvents'', events_or_empty session)];
          w3 = others AwaitProcessAudio (called (ProcessAudioCall request) w2)
      in case processAudio env request of
           Inl e \<Rightarrow> (Inl e, w3)
         | Inr processResult \<Rightarrow>
             (case await_update sessionId
                     [(''refinedScript'', refinedScript_of transcription processResult),
                      (''status'', JStr ''synthesizing'')] (others AwaitSaveRefined w3) of
                (Inl e, w4) \<Rightarrow> (Inl e, w4)
              | (Inr r, w4) \<Rightarrow>
                  synthesize_amid others sessionId processResult
                    (emit ''refinement_ready''
                       (JObj [(''sessionId'', JStr sessionId),
                              (''refinedScript'', refinedScript_of transcription processResult)]) w4)))"

definition enrich_amid ::
  "(await \<Rightarrow> pipeline_world \<Rightarrow> pipeline_world) \<Rightarrow> gateways \<Rightarrow> SessionData \<Rightarrow>
   TranscriptionResult \<Rightarrow> pipeline_world \<Rightarrow> (error + unit) \<times> pipeline_world" where
  "enrich_amid others env session transcription w0 =
     (let pythonHealthy = healthCheck env;
          w1 = others AwaitHealth (called (HealthCheckCall pythonHealthy) w0)
      in if \<not> pythonHealthy then complete_without_ai_amid others (sessionId_of session) w1
         else refine_amid others env session transcription w1)"

definition process_try_amid ::
  "(await \<Rightarrow> pipeline_world \<Rightarrow> pipeline_world) \<Rightarrow> gateways \<Rightarrow> SessionData \<Rightarrow>
   pipeline_world \<Rightarrow> (error + unit) \<times> pipeline_world" where
  "process_try_amid others env session w0 =
     (let sessionId = sessionId_of session;
          w1 = emitStatus sessionId ''transcribing'' ''Transcribing audio with Deepgram...'' w0;
          transcription = \<lparr>rawText = [], words = JArr [], confidence = JNum 0, duration = JNum 0\<rparr>
      in if audioPath_of session \<noteq> [] \<and> isConfigured env then
           (let w2 = others AwaitTranscribe (called (TranscribeCall (audioPath_of session)) w1)
            in case transcribeFile env (audioPath_of session) of
                 Inl e \<Rightarrow> (Inl e, w2)
               | Inr transcribed \<Rightarrow>
                   (case await_update sessionId
                           [(''transcription'', json_of_transcription transcribed),
                            (''status'', JStr ''transcribing'')] (others AwaitSaveTranscription w2) of
                      (Inl e, w3) \<Rightarrow> (Inl e, w3)
                    | (Inr r, w3) \<Rightarrow>
                        enrich_amid others env session transcribed
                          (emit ''transcription_ready''
                             (JObj [(''sessionId'', JStr sessionId),
                                    (''transcription'', json_of_transcription transcribed)]) w3)))
         else if \<not> isConfigured env then
           enrich_amid others env session transcription
             (emitStatus sessionId ''transcribing'' ''Deepgram not configured, skipping...'' w1)
         else enrich_amid others env session transcription w1)"

definition process_amid ::
  "(await \<Rightarrow> pipeline_world \<Rightarrow> pipeline_world) \<Rightarrow> gateways \<Rightarrow> SessionData \<Rightarrow>
   pipeline_world \<Rightarrow> (error + unit) \<times> pipeline_world" where
  "process_amid others env session w =
     (case process_try_amid others env session w of
        (Inr u, w') \<Rightarrow> (Inr (), w')
      | (Inl err, w') \<Rightarrow>
          (case await_update (sessionId_of session)
                  [(''status'', JStr ''error''), (''error'', JStr (message err))]
                  (others AwaitSaveError w') of
             (Inl e, w'') \<Rightarrow> (Inl e, w'')
           | (Inr r, w'') \<Rightarrow>
               (Inr (), emit ''error''
                          (JObj [(''sessionId'', JStr (sessionId_of session)),
                                 (''error'', JStr (message err))]) w'')))"

section \<open>Properties of runs\<close>

text \<open>Whether the coming \<open>n\<close> calls of \<^verbatim>\<open>writeFile\<close> succeed.\<close>

definition writes_succeed :: "nat \<Rightarrow> 'a world_scheme \<Rightarrow> bool" where
  "writes_succeed n w = (\<forall>x \<in> set (take n (faults w)). x = WriteOk)"

text \<open>The chunks the aggregator tracks for a session and a media type.\<close>

definition tracked :: "media \<Rightarrow> string \<Rightarrow> chunk_world \<Rightarrow> ChunkInfo list" where
  "tracked ty sessionId cw =
     (case chunksMap cw sessionId of None \<Rightarrow> [] | Some sc \<Rightarrow> chunks_of ty sc)"

text \<open>The actions of one run of \<open>process\<close>: what it adds to the trace.\<close>

definition run_of :: "gateways \<Rightarrow> SessionData \<Rightarrow> pipeline_world \<Rightarrow> action list" where
  "run_of env session w = drop (length (trace w)) (trace (snd (process env session w)))"

fun field :: "json \<Rightarrow> string \<Rightarrow> json option" where
  "field (JObj kvs) k = map_of kvs k"
| "field v k = None"







text \<open>
  An action that belongs to the enrichment stages: the call of the combined
  refine-and-synthesize operation, a store update that sets the status \<^verbatim>\<open>refining\<close> or
  \<^verbatim>\<open>synthesizing\<close> or writes \<^verbatim>\<open>refinedScript\<close>, or a broadcast of one of these statuses or
  of the refined script.
\<close>

fun enriches :: "action \<Rightarrow> bool" where
  "enriches (ProcessAudioCall request) = True"
| "enriches (UpdateCall sid updates res) =
     (map_of updates ''refinedScript'' \<noteq> None \<or>
      map_of updates ''status'' = Some (JStr ''refining'') \<or>
      map_of updates ''status'' = Some (JStr ''synthesizing''))"
| "enriches (Emit event payload) =
     (event = ''refinement_ready'' \<or> event = ''synthesis_ready'' \<or>
      field payload ''status'' = Some (JStr ''refining'') \<or>
      field payload ''status'' = Some (JStr ''synthesizing''))"
| "enriches a = False"

fun is_update :: "action \<Rightarrow> bool" where
  "is_update (UpdateCall sid updates res) = True"
| "is_update a = False"

text \<open>
  A run that treats a not-found store update as fatal: no further store-update call follows
  the first one that came back with \<^verbatim>\<open>null\<close>.
\<close>

fun abandons_after_not_found :: "action list \<Rightarrow> bool" where
  "abandons_after_not_found [] = True"
| "abandons_after_not_found (UpdateCall sid updates res # rest) =
     (if res = NoSuchSession then (\<forall>a \<in> set rest. \<not> is_update a)
      else abandons_after_not_found rest)"
| "abandons_after_not_found (a # rest) = abandons_after_not_found rest"

text \<open>The actions of a run among other handlers, theirs included.\<close>

definition run_amid ::
  "(await \<Rightarrow> pipeline_world \<Rightarrow> pipeline_world) \<Rightarrow> gateways \<Rightarrow> SessionData \<Rightarrow>
   pipeline_world \<Rightarrow> action list" where
  "run_amid others env session w =
     drop (length (trace w)) (trace (snd (process_amid others env session w)))"

text \<open>Whether the deletion of the session is announced among the actions.\<close>

fun deleted_in :: "action list \<Rightarrow> bool" where
  "deleted_in [] = False"
| "deleted_in (Emit event payload # rest) = (event = ''session_deleted'' \<or> deleted_in rest)"
| "deleted_in (a # rest) = deleted_in rest"

text \<open>
  \<open>null_after_deletion gone run\<close>: every store-update call of \<open>run\<close> that comes after the
  deletion of the session (or any, when the session is \<open>gone\<close> already) came back with
  \<^verbatim>\<open>null\<close>.
\<close>

fun null_after_deletion :: "bool \<Rightarrow> action list \<Rightarrow> bool" where
  "null_after_deletion gone [] = True"
| "null_after_deletion gone (Emit event payload # rest) =
     null_after_deletion (gone \<or> event = ''session_deleted'') rest"
| "null_after_deletion gone (UpdateCall sid updates res # rest) =
     ((gone \<longrightarrow> res = NoSuchSession) \<and> null_after_deletion gone rest)"
| "null_after_deletion gone (a # rest) = null_after_deletion gone rest"

text \<open>
  A stretch of a run: it adds \<open>acts\<close> to the trace, its store updates after the deletion came
  back with \<^verbatim>\<open>null\<close>, and once the session is deleted it is absent from the store.
\<close>

definition stretch ::
  "string \<Rightarrow> bool \<Rightarrow> pipeline_world \<Rightarrow> action list \<Rightarrow> pipeline_world \<Rightarrow> bool" where
  "stretch sid gone w acts w' =
     (trace w' = trace w @ acts \<and> null_after_deletion gone acts \<and>
      (gone \<or> deleted_in acts \<longrightarrow> getSession sid w' = None))"

section \<open>Example inputs\<close>

definition demo_session :: SessionData where
  "demo_session =
     [(''sessionId'', JStr ''s1''), (''url'', JStr ''https://example.com''),
      (''startTime'', JNum 1), (''events'', JArr []), (''status'', JStr ''recording'')]"

definition demo_store :: SessionsStore where
  "demo_store = \<lparr>sessions = [(''s1'', demo_session)], lastUpdated = ''t0''\<rparr>"

definition demo_world :: world where
  "demo_world = \<lparr>sessionsFile = Stored demo_store, now = ''t1'', faults = [], removed = []\<rparr>"

text \<open>The same session once its audio is merged and the recording is stopped.\<close>

definition demo_stopped :: SessionData where
  "demo_stopped =
     [(''sessionId'', JStr ''s1''), (''url'', JStr ''https://example.com''),
      (''startTime'', JNum 1), (''events'', JArr []), (''status'', JStr ''processing''),
      (''audioPath'', JStr ''recordings/s1/recording_audio.webm''), (''endTime'', JNum 2)]"

definition demo_pipeline_world :: pipeline_world where
  "demo_pipeline_world =
     \<lparr>sessionsFile = Stored \<lparr>sessions = [(''s1'', demo_stopped)], lastUpdated = ''t0''\<rparr>,
      now = ''t1'', faults = [], removed = [], trace = []\<rparr>"

text \<open>The store after the session \<^verbatim>\<open>s1\<close> has been deleted.\<close>

definition demo_deleted_world :: pipeline_world where
  "demo_deleted_world = snd (deleteSession ''s1'' demo_pipeline_world)"

definition demo_transcription :: TranscriptionResult where
  "demo_transcription = \<lparr>rawText = ''hello'', words = JArr [], confidence = JNum 1, duration = JNum 2\<rparr>"

definition demo_response :: AudioProcessResponse where
  "demo_response =
     \<lparr>refinedText = JStr ''Hello.'', synthesizedAudioPath = JStr ''recordings/s1/voice.mp3'',
      instructions = JArr []\<rparr>"

definition demo_gateways :: "bool \<Rightarrow> gateways" where
  "demo_gateways healthy =
     \<lparr>isConfigured = True, transcribeFile = (\<lambda>p. Inr demo_transcription),
      healthCheck = healthy, processAudio = (\<lambda>r. Inr demo_response)\<rparr>"

definition demo_chunk :: "int \<Rightarrow> ChunkInfo" where
  "demo_chunk i =
     \<lparr>index = i, type = Video,
      path = (if i = 0 then ''chunk_video_0.webm'' else if i = 1 then ''chunk_video_1.webm'' else ''chunk_video_2.webm''),
      csize = 2\<rparr>"

definition demo_chunk_world :: chunk_world where
  "demo_chunk_world =
     \<lparr>chunksMap = Map.empty,
      files = [''chunk_video_0.webm'' \<mapsto> ''AB'', ''chunk_video_1.webm'' \<mapsto> ''CD'',
               ''chunk_video_2.webm'' \<mapsto> ''EF'']\<rparr>"

section \<open>Session Store: lemmas\<close>

lemma map_of_spread:
  "map_of (spread a b) k = (case map_of (rev b) k of Some v \<Rightarrow> Some v | None \<Rightarrow> map_of a k)"
  unfolding spread_def
proof (induction b arbitrary: a)
  case Nil
  show ?case by simp
next
  case (Cons x b)
  obtain k' v' where x: "x = (k', v')" by (cases x)
  show ?case
    by (simp add: x Cons.IH update_conv' map_add_def split: option.splits)
qed

lemma saveSessions_ok:
  "writes_succeed (Suc n) w \<Longrightarrow>
   saveSessions store w =
     (Inr (), w\<lparr>sessionsFile := Stored (store\<lparr>lastUpdated := now w\<rparr>), faults := tl (faults w)\<rparr>)"
  by (cases "faults w")
    (auto simp: saveSessions_def writeFile_def writes_succeed_def split: write_outcome.splits)

lemma saveSessions_cases:
  "saveSessions store w = (r, w') \<Longrightarrow>
     (r = Inr () \<and> sessionsFile w' = Stored (store\<lparr>lastUpdated := now w\<rparr>)) \<or>
     ((\<exists>m. r = Inl (StorageFailure m)) \<and>
      (sessionsFile w' = sessionsFile w \<or> sessionsFile w' = Unparsable))"
  by (auto simp: saveSessions_def writeFile_def split: list.splits write_outcome.splits)

lemma saveSessions_truncated:
  "faults w = FailsTruncated # fs \<Longrightarrow>
   saveSessions store w = (Inl (StorageFailure ''ENOSPC''), w\<lparr>sessionsFile := Unparsable, faults := fs\<rparr>)"
  by (simp add: saveSessions_def writeFile_def)

lemma saveSessions_unopened:
  "faults w = FailsUnopened # fs \<Longrightarrow>
   saveSessions store w = (Inl (StorageFailure ''EACCES''), w\<lparr>faults := fs\<rparr>)"
  by (simp add: saveSessions_def writeFile_def)

text \<open>A stored record is what \<open>getSession\<close> returns; for other ids than the inherited names
  \<open>getSession\<close> returns nothing else.\<close>

lemma getSession_stored:
  "stored sid w = Some s \<Longrightarrow> getSession sid w = Some s"
  by (simp add: getSession_def stored_def lookup_def)

lemma getSession_ordinary:
  "sid \<notin> set inherited \<Longrightarrow> getSession sid w = stored sid w"
  by (simp add: getSession_def stored_def lookup_def split: option.splits)

lemma getSession_found:
  "getSession sid w = Some s \<Longrightarrow>
   lookup (sessions (loadSessions w)) sid \<noteq> Undefined \<and>
   enumerable (lookup (sessions (loadSessions w)) sid) = s"
  by (auto simp: getSession_def split: looked_up.splits)

lemma updateSession_ok:
  "stored sid w = Some old \<Longrightarrow> writes_succeed (Suc n) w \<Longrightarrow>
   updateSession sid upd w =
     (Inr (Some (spread old upd)),
      w\<lparr>sessionsFile := Stored ((loadSessions w)\<lparr>sessions :=
             AList.update sid (spread old upd) (sessions (loadSessions w)),
           lastUpdated := now w\<rparr>), faults := tl (faults w)\<rparr>)"
  by (simp add: updateSession_def stored_def lookup_def assign_def Let_def saveSessions_ok)

lemma updateSession_absent:
  "getSession sid w = None \<Longrightarrow> updateSession sid upd w = (Inr None, w)"
  by (simp add: updateSession_def getSession_def split: looked_up.splits)

lemma appendEvents_ok:
  assumes ex: "stored sid w = Some s" and ev: "stored_events s = Inr old"
    and ok: "writes_succeed (Suc n) w"
  shows "appendEvents sid es w =
     (Inr (), w\<lparr>sessionsFile := Stored ((loadSessions w)\<lparr>sessions :=
                   AList.update sid (AList.update ''events'' (JArr (old @ es)) s) (sessions (loadSessions w)),
                 lastUpdated := now w\<rparr>), faults := tl (faults w)\<rparr>)"
  using ex ev
  by (simp add: appendEvents_def stored_def lookup_def Let_def saveSessions_ok [OF ok])

lemma stored_events_updated:
  "stored_events (AList.update ''events'' (JArr xs) s) = Inr xs"
  by (simp add: stored_events_def update_conv')

lemma demo_world_stored: "stored ''s1'' demo_world = Some demo_session"
  by (simp add: stored_def loadSessions_def demo_world_def demo_store_def)

lemma demo_world_get: "getSession ''s1'' demo_world = Some demo_session"
  by (rule getSession_stored [OF demo_world_stored])

lemma updateSession_split:
  "updateSession sid upd w = merge_and_save (loadSessions w) sid upd w"
  unfolding updateSession_def merge_and_save_def Let_def ..

text \<open>
  A limit of the uninterrupted call. The store has no lock, so two calls can overlap. An update
  that had loaded the store before the session was deleted writes the session back when it
  resumes, and the session is in the store again.
\<close>

lemma stale_update_reinserts:
  "getSession ''s1'' (snd (deleteSession ''s1'' demo_world)) = None \<and>
   getSession ''s1''
     (snd (merge_and_save (loadSessions demo_world) ''s1'' [(''status'', JStr ''completed'')]
        (snd (deleteSession ''s1'' demo_world))))
   = Some [(''sessionId'', JStr ''s1''), (''url'', JStr ''https://example.com''),
           (''startTime'', JNum 1), (''events'', JArr []), (''status'', JStr ''completed'')]"
  by (simp add: merge_and_save_def deleteSession_def saveSessions_def writeFile_def
      loadSessions_def getSession_def lookup_def assign_def inherited_def spread_def
      demo_world_def demo_store_def demo_session_def Let_def)

section \<open>Session Store: the claims\<close>




text \<open>
  C2, as the code has it. \<open>create\<close> for an id that already has a record does not fail with a
  duplicate error: when the write succeeds it replaces the stored record by the new session,
  returns the new session and leaves the records of other ids alone; the only error it can
  return is a storage failure of the write.
\<close>

theorem create_existing_overwrites:
  assumes ex: "stored (sessionId_of session) w = Some old"
  shows "(writes_succeed 1 w \<longrightarrow>
            (\<exists>w'. createSession session w = (Inr session, w') \<and>
                  getSession (sessionId_of session) w' = Some session \<and>
                  (\<forall>other. other \<noteq> sessionId_of session \<longrightarrow>
                     getSession other w' = getSession other w))) \<and>
         (\<forall>e w'. createSession session w = (Inl e, w') \<longrightarrow> (\<exists>m. e = StorageFailure m))"
proof (intro conjI impI allI)
  assume ok: "writes_succeed 1 w"
  then have ok': "writes_succeed (Suc 0) w" by simp
  show "\<exists>w'. createSession session w = (Inr session, w') \<and>
             getSession (sessionId_of session) w' = Some session \<and>
             (\<forall>other. other \<noteq> sessionId_of session \<longrightarrow> getSession other w' = getSession other w)"
    using ex
    by (simp add: createSession_def Let_def assign_def stored_def saveSessions_ok [OF ok']
        getSession_def lookup_def loadSessions_def update_conv')
next
  fix e w'
  assume "createSession session w = (Inl e, w')"
  then show "\<exists>m. e = StorageFailure m"
    by (auto simp: createSession_def Let_def split: prod.splits sum.splits dest: saveSessions_cases)
qed

theorem create_existing_overwrites_witness:
  "stored (sessionId_of [(''sessionId'', JStr ''s1''), (''url'', JStr ''https://other.example'')]) demo_world
     = Some demo_session \<and>
   writes_succeed 1 demo_world \<and>
   (\<exists>w'. createSession [(''sessionId'', JStr ''s1''), (''url'', JStr ''https://other.example'')] demo_world
            = (Inr [(''sessionId'', JStr ''s1''), (''url'', JStr ''https://other.example'')], w') \<and>
         getSession ''s1'' w' = Some [(''sessionId'', JStr ''s1''), (''url'', JStr ''https://other.example'')])"
proof -
  let ?new = "[(''sessionId'', JStr ''s1''), (''url'', JStr ''https://other.example'')]"
  have sid: "sessionId_of ?new = ''s1''" by (simp add: sessionId_of_def)
  have h: "stored (sessionId_of ?new) demo_world = Some demo_session"
    by (simp add: sid demo_world_stored)
  have ok: "writes_succeed 1 demo_world"
    by (simp add: writes_succeed_def demo_world_def)
  from create_existing_overwrites [OF h] ok show ?thesis
    using h sid by auto
qed

text \<open>
  C2 as stated fails: the store holds a record for \<^verbatim>\<open>s1\<close>, and \<open>create\<close> of another session
  with the id \<^verbatim>\<open>s1\<close> returns that session and leaves it in the store in place of the first.
\<close>

theorem create_duplicate_counterexample:
  "getSession ''s1'' demo_world = Some demo_session \<and>
   fst (createSession [(''sessionId'', JStr ''s1''), (''url'', JStr ''https://other.example'')] demo_world)
     = Inr [(''sessionId'', JStr ''s1''), (''url'', JStr ''https://other.example'')] \<and>
   getSession ''s1''
     (snd (createSession [(''sessionId'', JStr ''s1''), (''url'', JStr ''https://other.example'')] demo_world))
     = Some [(''sessionId'', JStr ''s1''), (''url'', JStr ''https://other.example'')] \<and>
   demo_session \<noteq> [(''sessionId'', JStr ''s1''), (''url'', JStr ''https://other.example'')]"
  by (simp add: createSession_def saveSessions_def writeFile_def getSession_def lookup_def
      assign_def loadSessions_def sessionId_of_def demo_world_def demo_store_def demo_session_def
      Let_def)

text \<open>
  C9. For a session that the store holds and whose stored \<^verbatim>\<open>events\<close> can be spread,
  \<open>appendEvents\<close> with \<open>[a, b]\<close> and then with \<open>[c]\<close> gives the same stored record, and the
  same sessions in the store, as one \<open>appendEvents\<close> with \<open>[a, b, c]\<close>: the stored sequence
  followed by \<open>a\<close>, \<open>b\<close>, \<open>c\<close>.
\<close>

theorem appendEvents_associative:
  assumes ex: "stored sid w = Some s"
    and ev: "stored_events s = Inr old"
    and ok: "writes_succeed 2 w"
  shows "\<exists>w1 w2 w3 final.
           appendEvents sid [a, b] w = (Inr (), w1) \<and>
           appendEvents sid [c] (w1\<lparr>now := t\<rparr>) = (Inr (), w2) \<and>
           appendEvents sid [a, b, c] w = (Inr (), w3) \<and>
           getSession sid w2 = Some final \<and> getSession sid w3 = Some final \<and>
           map_of final ''events'' = Some (JArr (old @ [a, b, c])) \<and>
           sessions (loadSessions w2) = sessions (loadSessions w3)"
proof -
  from ok have ok1: "writes_succeed (Suc 1) w" by (simp add: numeral_2_eq_2)
  let ?s1 = "AList.update ''events'' (JArr (old @ [a, b])) s"
  let ?w1 = "w\<lparr>sessionsFile := Stored ((loadSessions w)\<lparr>sessions :=
                   AList.update sid ?s1 (sessions (loadSessions w)),
                 lastUpdated := now w\<rparr>), faults := tl (faults w)\<rparr>"
  have a1: "appendEvents sid [a, b] w = (Inr (), ?w1)"
    by (rule appendEvents_ok [OF ex ev ok1])
  have ok2: "writes_succeed (Suc 0) (?w1\<lparr>now := t\<rparr>)"
    using ok1 by (cases "faults w") (auto simp: writes_succeed_def)
  have ex1: "stored sid (?w1\<lparr>now := t\<rparr>) = Some ?s1"
    by (simp add: stored_def loadSessions_def update_conv')
  let ?final = "AList.update ''events'' (JArr (old @ [a, b, c])) s"
  have a2: "\<exists>w2. appendEvents sid [c] (?w1\<lparr>now := t\<rparr>) = (Inr (), w2) \<and>
                 getSession sid w2 = Some ?final \<and>
                 sessions (loadSessions w2) = AList.update sid ?final (sessions (loadSessions w))"
    using appendEvents_ok [OF ex1 stored_events_updated ok2, of "[c]"]
    by (simp add: getSession_def lookup_def loadSessions_def update_conv')
  have a3: "\<exists>w3. appendEvents sid [a, b, c] w = (Inr (), w3) \<and>
                 getSession sid w3 = Some ?final \<and>
                 sessions (loadSessions w3) = AList.update sid ?final (sessions (loadSessions w))"
    using appendEvents_ok [OF ex ev ok1, of "[a, b, c]"]
    by (simp add: getSession_def lookup_def loadSessions_def update_conv')
  have "map_of ?final ''events'' = Some (JArr (old @ [a, b, c]))"
    by (simp add: update_conv')
  with a1 a2 a3 show ?thesis by metis
qed

theorem appendEvents_associative_witness:
  "stored ''s1'' demo_world = Some demo_session \<and>
   stored_events demo_session = Inr [] \<and>
   writes_succeed 2 demo_world \<and>
   (\<exists>w1 w2 w3 final.
      appendEvents ''s1'' [JStr ''a'', JStr ''b''] demo_world = (Inr (), w1) \<and>
      appendEvents ''s1'' [JStr ''c''] (w1\<lparr>now := ''t2''\<rparr>) = (Inr (), w2) \<and>
      appendEvents ''s1'' [JStr ''a'', JStr ''b'', JStr ''c''] demo_world = (Inr (), w3) \<and>
      getSession ''s1'' w2 = Some final \<and> getSession ''s1'' w3 = Some final \<and>
      map_of final ''events'' = Some (JArr [JStr ''a'', JStr ''b'', JStr ''c'']))"
proof -
  have h2: "stored_events demo_session = Inr []"
    by (simp add: stored_events_def demo_session_def)
  have h3: "writes_succeed 2 demo_world"
    by (simp add: writes_succeed_def demo_world_def)
  from appendEvents_associative [OF demo_world_stored h2 h3, of "JStr ''a''" "JStr ''b''" "JStr ''c''" "''t2''"]
  show ?thesis using demo_world_stored h2 h3 by auto
qed

text \<open>
  C10, as the code has it. When the store file is absent or does not parse, every operation
  loads the empty store, and for an id that is not the name of a property that every object
  inherits (\<open>inherited\<close>) the store behaves as an empty one: \<open>get\<close> returns \<^verbatim>\<open>null\<close>,
  \<open>list\<close> the empty list, \<open>delete\<close> \<^verbatim>\<open>false\<close>, \<open>update\<close> \<^verbatim>\<open>null\<close>, \<open>appendEvents\<close> throws
  not-found, none of them touching the file; and the next successful mutation, a \<open>create\<close>
  (of a session whose id is not \<^verbatim>\<open>__proto__\<close>), writes a fresh store that holds the new
  session only. No operation reports the unreadable file to its caller.
\<close>

theorem unreadable_store_is_empty:
  assumes bad: "sessionsFile w = Missing \<or> sessionsFile w = Unparsable"
    and ordinary: "sid \<notin> set inherited"
  shows "loadSessions w = \<lparr>sessions = [], lastUpdated = now w\<rparr> \<and>
         getSession sid w = None \<and>
         listSessions w = Some [] \<and>
         deleteSession sid w = (Inr False, w) \<and>
         updateSession sid updates w = (Inr None, w) \<and>
         appendEvents sid events w = (Inl (NotFound sid), w) \<and>
         (writes_succeed 1 w \<and> sessionId_of session \<noteq> ''__proto__'' \<longrightarrow>
            (\<exists>w'. createSession session w = (Inr session, w') \<and>
                  sessionsFile w' =
                    Stored \<lparr>sessions = [(sessionId_of session, session)], lastUpdated = now w\<rparr>))"
proof -
  from bad have empty: "loadSessions w = \<lparr>sessions = [], lastUpdated = now w\<rparr>"
    by (auto simp: loadSessions_def)
  from ordinary have undefined: "lookup [] sid = Undefined"
    by (simp add: lookup_def)
  have "writes_succeed 1 w \<and> sessionId_of session \<noteq> ''__proto__'' \<Longrightarrow>
          \<exists>w'. createSession session w = (Inr session, w') \<and>
               sessionsFile w' =
                 Stored \<lparr>sessions = [(sessionId_of session, session)], lastUpdated = now w\<rparr>"
  proof -
    assume h: "writes_succeed 1 w \<and> sessionId_of session \<noteq> ''__proto__''"
    then have ok: "writes_succeed (Suc 0) w" by simp
    from h show ?thesis
      by (simp add: createSession_def Let_def assign_def empty saveSessions_ok [OF ok])
  qed
  then show ?thesis
    by (simp add: getSession_def listSessions_def deleteSession_def updateSession_def
        appendEvents_def empty undefined)
qed

theorem unreadable_store_is_empty_witness:
  "(sessionsFile (demo_world\<lparr>sessionsFile := Unparsable\<rparr>) = Missing \<or>
    sessionsFile (demo_world\<lparr>sessionsFile := Unparsable\<rparr>) = Unparsable) \<and>
   ''s1'' \<notin> set inherited \<and>
   getSession ''s1'' (demo_world\<lparr>sessionsFile := Unparsable\<rparr>) = None \<and>
   listSessions (demo_world\<lparr>sessionsFile := Unparsable\<rparr>) = Some [] \<and>
   deleteSession ''s1'' (demo_world\<lparr>sessionsFile := Unparsable\<rparr>)
     = (Inr False, demo_world\<lparr>sessionsFile := Unparsable\<rparr>) \<and>
   writes_succeed 1 (demo_world\<lparr>sessionsFile := Unparsable\<rparr>) \<and>
   sessionId_of demo_session \<noteq> ''__proto__'' \<and>
   (\<exists>w'. createSession demo_session (demo_world\<lparr>sessionsFile := Unparsable\<rparr>) = (Inr demo_session, w') \<and>
         sessionsFile w' = Stored \<lparr>sessions = [(''s1'', demo_session)], lastUpdated = ''t1''\<rparr>)"
proof -
  let ?w = "demo_world\<lparr>sessionsFile := Unparsable\<rparr>"
  have h: "sessionsFile ?w = Missing \<or> sessionsFile ?w = Unparsable" by simp
  have ord: "''s1'' \<notin> set inherited" by (simp add: inherited_def)
  have ok: "writes_succeed 1 ?w" by (simp add: writes_succeed_def demo_world_def)
  have sid: "sessionId_of demo_session = ''s1''" by (simp add: sessionId_of_def demo_session_def)
  have nw: "now ?w = ''t1''" by (simp add: demo_world_def)
  from unreadable_store_is_empty [OF h ord, of "[]" "[]" demo_session]
  show ?thesis using ord ok sid nw by simp
qed

text \<open>
  C10 as stated fails, since it speaks of every id: the store file is missing, and for the id
  \<^verbatim>\<open>constructor\<close> the read \<^verbatim>\<open>store.sessions[sessionId]\<close> finds the function that every
  object inherits. \<open>get\<close> does not return \<^verbatim>\<open>null\<close>; \<open>update\<close> does not return
  \<^verbatim>\<open>null\<close> and creates the store file with a record under that id; \<open>delete\<close> returns
  \<^verbatim>\<open>true\<close>, removes the directory of the id and creates the store file; \<open>appendEvents\<close>
  does not throw and creates the store file.
\<close>

theorem inherited_name_counterexample:
  "sessionsFile (demo_world\<lparr>sessionsFile := Missing\<rparr>) = Missing \<and>
   getSession ''constructor'' (demo_world\<lparr>sessionsFile := Missing\<rparr>) = Some [] \<and>
   fst (updateSession ''constructor'' [(''status'', JStr ''completed'')]
          (demo_world\<lparr>sessionsFile := Missing\<rparr>)) = Inr (Some [(''status'', JStr ''completed'')]) \<and>
   sessionsFile (snd (updateSession ''constructor'' [(''status'', JStr ''completed'')]
          (demo_world\<lparr>sessionsFile := Missing\<rparr>)))
     = Stored \<lparr>sessions = [(''constructor'', [(''status'', JStr ''completed'')])], lastUpdated = ''t1''\<rparr> \<and>
   fst (deleteSession ''constructor'' (demo_world\<lparr>sessionsFile := Missing\<rparr>)) = Inr True \<and>
   removed (snd (deleteSession ''constructor'' (demo_world\<lparr>sessionsFile := Missing\<rparr>)))
     = [''recordings/constructor''] \<and>
   sessionsFile (snd (deleteSession ''constructor'' (demo_world\<lparr>sessionsFile := Missing\<rparr>)))
     = Stored \<lparr>sessions = [], lastUpdated = ''t1''\<rparr> \<and>
   fst (appendEvents ''constructor'' [JStr ''click''] (demo_world\<lparr>sessionsFile := Missing\<rparr>)) = Inr () \<and>
   sessionsFile (snd (appendEvents ''constructor'' [JStr ''click''] (demo_world\<lparr>sessionsFile := Missing\<rparr>)))
     = Stored \<lparr>sessions = [], lastUpdated = ''t1''\<rparr>"
  by (simp add: getSession_def updateSession_def deleteSession_def appendEvents_def lookup_def
      assign_def inherited_def spread_def saveSessions_def writeFile_def loadSessions_def
      recordingsDir_def demo_world_def Let_def)

text \<open>
  C6, as the code has it. Every mutation of the Session Store persists the store with one
  \<^verbatim>\<open>writeFile\<close> onto the store file itself; there is no temporary file and no rename.
  When that write fails after the file was truncated, the operation reports a storage failure
  to its caller and the store file is left unparsable; when it fails before the file is
  opened, the caller sees the failure and the file is as it was. This holds for \<open>create\<close>
  whatever the store holds, for \<open>update\<close> and \<open>delete\<close> when they find the session, and for
  \<open>appendEvents\<close> when it finds the session and the stored \<^verbatim>\<open>events\<close> can be spread.
\<close>

theorem mutations_write_in_place:
  "(faults w = FailsTruncated # fs \<longrightarrow>
      fst (createSession session w) = Inl (StorageFailure ''ENOSPC'') \<and>
      sessionsFile (snd (createSession session w)) = Unparsable \<and>
      (getSession sid w = Some s \<longrightarrow>
         fst (updateSession sid updates w) = Inl (StorageFailure ''ENOSPC'') \<and>
         fst (deleteSession sid w) = Inl (StorageFailure ''ENOSPC'') \<and>
         sessionsFile (snd (updateSession sid updates w)) = Unparsable \<and>
         sessionsFile (snd (deleteSession sid w)) = Unparsable \<and>
         (stored_events s = Inr old \<longrightarrow>
            fst (appendEvents sid events w) = Inl (StorageFailure ''ENOSPC'') \<and>
            sessionsFile (snd (appendEvents sid events w)) = Unparsable))) \<and>
   (faults w = FailsUnopened # fs \<longrightarrow>
      fst (createSession session w) = Inl (StorageFailure ''EACCES'') \<and>
      sessionsFile (snd (createSession session w)) = sessionsFile w \<and>
      (getSession sid w = Some s \<longrightarrow>
         fst (updateSession sid updates w) = Inl (StorageFailure ''EACCES'') \<and>
         fst (deleteSession sid w) = Inl (StorageFailure ''EACCES'') \<and>
         sessionsFile (snd (updateSession sid updates w)) = sessionsFile w \<and>
         sessionsFile (snd (deleteSession sid w)) = sessionsFile w \<and>
         (stored_events s = Inr old \<longrightarrow>
            fst (appendEvents sid events w) = Inl (StorageFailure ''EACCES'') \<and>
            sessionsFile (snd (appendEvents sid events w)) = sessionsFile w)))"
proof (intro conjI impI)
  assume f: "faults w = FailsTruncated # fs"
  show "fst (createSession session w) = Inl (StorageFailure ''ENOSPC'')"
    and "sessionsFile (snd (createSession session w)) = Unparsable"
    by (simp_all add: createSession_def Let_def saveSessions_truncated [OF f])
next
  assume f: "faults w = FailsTruncated # fs" and ex: "getSession sid w = Some s"
  have f': "\<And>r. faults (w\<lparr>removed := r\<rparr>) = FailsTruncated # fs"
    using f by simp
  note found = getSession_found [OF ex]
  show "fst (updateSession sid updates w) = Inl (StorageFailure ''ENOSPC'')"
    and "sessionsFile (snd (updateSession sid updates w)) = Unparsable"
    using found
    by (simp_all add: updateSession_def Let_def saveSessions_truncated [OF f]
        split: looked_up.splits)
  show "fst (deleteSession sid w) = Inl (StorageFailure ''ENOSPC'')"
    and "sessionsFile (snd (deleteSession sid w)) = Unparsable"
    using found
    by (simp_all add: deleteSession_def Let_def saveSessions_truncated [OF f']
        split: looked_up.splits)
next
  assume f: "faults w = FailsTruncated # fs" and ex: "getSession sid w = Some s"
    and ev: "stored_events s = Inr old"
  note found = getSession_found [OF ex]
  show "fst (appendEvents sid events w) = Inl (StorageFailure ''ENOSPC'')"
    and "sessionsFile (snd (appendEvents sid events w)) = Unparsable"
    using found ev
    by (auto simp: appendEvents_def Let_def saveSessions_truncated [OF f]
        split: looked_up.splits)
next
  assume f: "faults w = FailsUnopened # fs"
  show "fst (createSession session w) = Inl (StorageFailure ''EACCES'')"
    and "sessionsFile (snd (createSession session w)) = sessionsFile w"
    by (simp_all add: createSession_def Let_def saveSessions_unopened [OF f])
next
  assume f: "faults w = FailsUnopened # fs" and ex: "getSession sid w = Some s"
  have f': "\<And>r. faults (w\<lparr>removed := r\<rparr>) = FailsUnopened # fs"
    using f by simp
  note found = getSession_found [OF ex]
  show "fst (updateSession sid updates w) = Inl (StorageFailure ''EACCES'')"
    and "sessionsFile (snd (updateSession sid updates w)) = sessionsFile w"
    using found
    by (simp_all add: updateSession_def Let_def saveSessions_unopened [OF f]
        split: looked_up.splits)
  show "fst (deleteSession sid w) = Inl (StorageFailure ''EACCES'')"
    and "sessionsFile (snd (deleteSession sid w)) = sessionsFile w"
    using found
    by (simp_all add: deleteSession_def Let_def saveSessions_unopened [OF f']
        split: looked_up.splits)
next
  assume f: "faults w = FailsUnopened # fs" and ex: "getSession sid w = Some s"
    and ev: "stored_events s = Inr old"
  note found = getSession_found [OF ex]
  show "fst (appendEvents sid events w) = Inl (StorageFailure ''EACCES'')"
    and "sessionsFile (snd (appendEvents sid events w)) = sessionsFile w"
    using found ev
    by (auto simp: appendEvents_def Let_def saveSessions_unopened [OF f]
        split: looked_up.splits)
qed

theorem mutations_write_in_place_witness:
  "faults (demo_world\<lparr>faults := [FailsTruncated]\<rparr>) = FailsTruncated # [] \<and>
   getSession ''s1'' (demo_world\<lparr>faults := [FailsTruncated]\<rparr>) = Some demo_session \<and>
   stored_events demo_session = Inr [] \<and>
   fst (createSession [(''sessionId'', JStr ''s2'')] (demo_world\<lparr>faults := [FailsTruncated]\<rparr>))
     = Inl (StorageFailure ''ENOSPC'') \<and>
   fst (updateSession ''s1'' [(''status'', JStr ''completed'')] (demo_world\<lparr>faults := [FailsTruncated]\<rparr>))
     = Inl (StorageFailure ''ENOSPC'') \<and>
   sessionsFile (snd (updateSession ''s1'' [(''status'', JStr ''completed'')]
                   (demo_world\<lparr>faults := [FailsTruncated]\<rparr>))) = Unparsable \<and>
   fst (appendEvents ''s1'' [JStr ''click''] (demo_world\<lparr>faults := [FailsTruncated]\<rparr>))
     = Inl (StorageFailure ''ENOSPC'')"
proof -
  let ?w = "demo_world\<lparr>faults := [FailsTruncated]\<rparr>"
  have h1: "getSession ''s1'' ?w = Some demo_session"
    by (simp add: getSession_def lookup_def loadSessions_def demo_world_def demo_store_def)
  have h2: "stored_events demo_session = Inr []"
    by (simp add: stored_events_def demo_session_def)
  have h3: "faults ?w = FailsTruncated # []" by simp
  from mutations_write_in_place [of ?w "[]" "[(''sessionId'', JStr ''s2'')]" "''s1''" demo_session
      "[(''status'', JStr ''completed'')]" "[]" "[JStr ''click'']"]
  show ?thesis using h1 h2 h3 by simp
qed

text \<open>
  C6 as stated fails: the store file holds the session \<^verbatim>\<open>s1\<close>; an \<open>update\<close> whose write
  fails after the truncation reports the failure, and the file no longer parses, so the
  session that was persisted before is gone.
\<close>

theorem failed_write_counterexample:
  "sessionsFile (demo_world\<lparr>faults := [FailsTruncated]\<rparr>) = Stored demo_store \<and>
   getSession ''s1'' (demo_world\<lparr>faults := [FailsTruncated]\<rparr>) = Some demo_session \<and>
   fst (updateSession ''s1'' [(''status'', JStr ''completed'')] (demo_world\<lparr>faults := [FailsTruncated]\<rparr>))
     = Inl (StorageFailure ''ENOSPC'') \<and>
   sessionsFile (snd (updateSession ''s1'' [(''status'', JStr ''completed'')]
                   (demo_world\<lparr>faults := [FailsTruncated]\<rparr>))) = Unparsable \<and>
   getSession ''s1'' (snd (updateSession ''s1'' [(''status'', JStr ''completed'')]
                   (demo_world\<lparr>faults := [FailsTruncated]\<rparr>))) = None"
  by (simp add: updateSession_def saveSessions_def writeFile_def getSession_def lookup_def
      assign_def inherited_def loadSessions_def demo_world_def demo_store_def Let_def)

section \<open>Chunk Aggregator: lemmas\<close>

lemma sort_key_sorted_prefix:
  "sort_key f (sort_key f xs @ ys) = sort_key f (xs @ ys)"
proof (rule properties_for_sort_key)
  show "mset (sort_key f (xs @ ys)) = mset (sort_key f xs @ ys)" by simp
  show "sorted (map f (sort_key f (xs @ ys)))" by simp
  fix k
  have "filter (\<lambda>x. f x = f k) (sort_key f (xs @ ys)) = filter (\<lambda>x. f x = f k) (sort_key f xs @ ys)"
    by (simp add: sort_key_stable)
  then show "filter (\<lambda>x. f k = f x) (sort_key f (xs @ ys)) = filter (\<lambda>x. f k = f x) (sort_key f xs @ ys)"
    by (simp add: eq_commute [of "f k"])
qed

lemma tracked_addChunk:
  "tracked ty sid (addChunk sid c cw) =
     (if type c = ty then sort_key index (tracked ty sid cw @ [c]) else tracked ty sid cw)"
  by (cases ty; cases "type c") (auto simp: tracked_def addChunk_def Let_def split: option.splits)

lemma files_addChunk: "files (addChunk sid c cw) = files cw"
  by (simp add: addChunk_def Let_def)

lemma files_fold_addChunk: "files (fold (addChunk sid) xs cw) = files cw"
  by (induction xs arbitrary: cw) (simp_all add: files_addChunk)

lemma tracked_fold_addChunk:
  "\<forall>c \<in> set xs. type c = ty \<Longrightarrow>
   tracked ty sid (fold (addChunk sid) xs cw) = sort_key index (tracked ty sid cw @ xs)
   \<or> xs = []"
proof (induction xs arbitrary: cw)
  case Nil
  show ?case by simp
next
  case (Cons x xs)
  show ?case
  proof (cases "xs = []")
    case True
    with Cons.prems show ?thesis by (simp add: tracked_addChunk)
  next
    case False
    with Cons.IH [of "addChunk sid x cw"] Cons.prems
    have "tracked ty sid (fold (addChunk sid) xs (addChunk sid x cw)) =
            sort_key index (sort_key index (tracked ty sid cw @ [x]) @ xs)"
      by (simp add: tracked_addChunk)
    then show ?thesis by (simp add: sort_key_sorted_prefix)
  qed
qed

lemma tracked_after_arrival:
  assumes "\<forall>c \<in> set xs. type c = ty" and "tracked ty sid cw = []"
  shows "tracked ty sid (fold (addChunk sid) xs cw) = sort_key index xs"
  using tracked_fold_addChunk [OF assms(1), of sid cw] assms(2) by auto

lemma mergeChunks_none:
  "tracked ty sid cw = [] \<Longrightarrow> mergeChunks sid ty cw = (Inl (NoChunks (media_name ty) sid), cw)"
  by (auto simp: tracked_def mergeChunks_def Let_def split: option.splits)

lemma arrival_sorted:
  assumes perm: "mset arrival = mset [c0, c1, c2]"
    and idx: "index c0 = 0" "index c1 = 1" "index c2 = 2"
  shows "sort_key index arrival = [c0, c1, c2]"
proof (rule properties_for_sort_key)
  show "mset [c0, c1, c2] = mset arrival" using perm by simp
  show "sorted (map index [c0, c1, c2])" using idx by simp
  fix k assume k: "k \<in> set [c0, c1, c2]"
  have one: "filter (\<lambda>x. index k = index x) [c0, c1, c2] = [k]"
    using k idx by auto
  have "mset (filter (\<lambda>x. index k = index x) arrival) =
          mset (filter (\<lambda>x. index k = index x) [c0, c1, c2])"
    by (simp only: mset_filter perm)
  then have "mset (filter (\<lambda>x. index k = index x) arrival) = {#k#}"
    by (simp only: one) simp
  then have "filter (\<lambda>x. index k = index x) arrival = [k]"
    by (simp only: mset_single_iff)
  with one show "filter (\<lambda>x. index k = index x) [c0, c1, c2] = filter (\<lambda>x. index k = index x) arrival"
    by simp
qed

lemma mergeChunks_many_clears:
  assumes "mergeChunks sid ty cw = (Inr out, cw')" and "length (tracked ty sid cw) \<noteq> 1"
  shows "tracked ty sid cw' = []"
  using assms
  by (cases ty)
    (auto simp: mergeChunks_def tracked_def Let_def split: option.splits list.splits sum.splits prod.splits)

section \<open>Chunk Aggregator: the claims\<close>

text \<open>
  C3 at the failing input. One video chunk is tracked for \<^verbatim>\<open>s1\<close>. The first
  \<open>mergeChunks\<close> succeeds by renaming the chunk file and returns before the in-memory set is
  cleared: the chunk is still tracked, and the repeated \<open>mergeChunks\<close> does not fail with
  no-chunks but tries to rename the file that is no longer there.
\<close>

theorem single_chunk_merge_not_cleared:
  "fst (mergeChunks ''s1'' Video (addChunk ''s1'' (demo_chunk 0) demo_chunk_world))
     = Inr ''recordings/s1/recording_video.webm'' \<and>
   tracked Video ''s1'' (snd (mergeChunks ''s1'' Video (addChunk ''s1'' (demo_chunk 0) demo_chunk_world)))
     = [demo_chunk 0] \<and>
   fst (mergeChunks ''s1'' Video
          (snd (mergeChunks ''s1'' Video (addChunk ''s1'' (demo_chunk 0) demo_chunk_world))))
     = Inl (StorageFailure ''ENOENT'')"
  by (simp add: mergeChunks_def addChunk_def rename_def tracked_def demo_chunk_def
      demo_chunk_world_def recordingsDir_def Let_def)

text \<open>
  C4. Three chunks of one media type with the indices 0, 1 and 2 are added for a session, in
  any arrival order, to an aggregator that tracks nothing for that session and type; their
  files exist, at three different paths other than the output path. Then \<open>mergeChunks\<close>
  returns the output path, and the output file holds the three payloads in the order of the
  indices; the chunk files are gone and the tracked set is empty.
\<close>

theorem merge_in_index_order:
  assumes perm: "mset arrival = mset [c0, c1, c2]"
    and idx: "index c0 = 0" "index c1 = 1" "index c2 = 2"
    and ty: "type c0 = ty" "type c1 = ty" "type c2 = ty"
    and fresh: "tracked ty sid cw = []"
    and payloads: "files cw (path c0) = Some p0" "files cw (path c1) = Some p1"
      "files cw (path c2) = Some p2"
    and out: "out = recordingsDir @ ''/'' @ sid @ ''/recording_'' @ media_name ty @ ''.webm''"
    and paths: "distinct [path c0, path c1, path c2, out]"
  shows "\<exists>cw'. mergeChunks sid ty (fold (addChunk sid) arrival cw) = (Inr out, cw') \<and>
               files cw' out = Some (p0 @ p1 @ p2) \<and>
               files cw' (path c0) = None \<and> files cw' (path c1) = None \<and>
               files cw' (path c2) = None \<and>
               tracked ty sid cw' = []"
proof -
  let ?cw = "fold (addChunk sid) arrival cw"
  have "set arrival = set [c0, c1, c2]"
    using perm by (rule mset_eq_setD)
  with ty have all_ty: "\<forall>c \<in> set arrival. type c = ty" by auto
  have "tracked ty sid ?cw = sort_key index arrival"
    by (rule tracked_after_arrival [OF all_ty fresh])
  also have "\<dots> = [c0, c1, c2]"
    by (rule arrival_sorted [OF perm idx])
  finally have tr: "tracked ty sid ?cw = [c0, c1, c2]" .
  then obtain sc where sc: "chunksMap ?cw sid = Some sc" "chunks_of ty sc = [c0, c1, c2]"
    by (auto simp: tracked_def split: option.splits)
  have fs: "files ?cw = files cw" by (rule files_fold_addChunk)
  from paths have d: "path c0 \<noteq> path c1" "path c0 \<noteq> path c2" "path c1 \<noteq> path c2"
    "path c0 \<noteq> out" "path c1 \<noteq> out" "path c2 \<noteq> out"
    by auto
  have merge: "mergeChunks sid ty ?cw =
      (case pipe_chunks [c0, c1, c2] out ((files cw)(out \<mapsto> [])) of
         (Inl e, fs') \<Rightarrow> (Inl e, ?cw\<lparr>files := fs'\<rparr>)
       | (Inr u, fs') \<Rightarrow>
           (Inr out, ?cw\<lparr>files := fs',
              chunksMap := (chunksMap ?cw)(sid \<mapsto> set_chunks ty [] sc)\<rparr>))"
    unfolding mergeChunks_def Let_def out [symmetric]
    by (simp add: sc fs del: pipe_chunks.simps)
  have piped: "pipe_chunks [c0, c1, c2] out ((files cw)(out \<mapsto> [])) =
      (Inr (), (files cw)(out \<mapsto> p0 @ p1 @ p2, path c0 := None, path c1 := None, path c2 := None))"
    using d payloads by (simp add: fun_upd_twist)
  have cleared: "chunks_of ty (set_chunks ty [] sc) = []"
    by (cases ty) simp_all
  show ?thesis
    unfolding merge piped using d by (simp add: tracked_def cleared)
qed

theorem merge_in_index_order_witness:
  "mset [demo_chunk 2, demo_chunk 0, demo_chunk 1] = mset [demo_chunk 0, demo_chunk 1, demo_chunk 2] \<and>
   tracked Video ''s1'' demo_chunk_world = [] \<and>
   distinct [path (demo_chunk 0), path (demo_chunk 1), path (demo_chunk 2),
             ''recordings/s1/recording_video.webm''] \<and>
   (\<exists>cw'. mergeChunks ''s1'' Video
            (fold (addChunk ''s1'') [demo_chunk 2, demo_chunk 0, demo_chunk 1] demo_chunk_world)
            = (Inr ''recordings/s1/recording_video.webm'', cw') \<and>
          files cw' ''recordings/s1/recording_video.webm'' = Some ''ABCDEF'' \<and>
          tracked Video ''s1'' cw' = [])"
proof -
  have perm: "mset [demo_chunk 2, demo_chunk 0, demo_chunk 1]
                = mset [demo_chunk 0, demo_chunk 1, demo_chunk 2]"
    by (simp add: add.commute add.left_commute)
  have fresh: "tracked Video ''s1'' demo_chunk_world = []"
    by (simp add: tracked_def demo_chunk_world_def)
  have out: "''recordings/s1/recording_video.webm''
               = recordingsDir @ ''/'' @ ''s1'' @ ''/recording_'' @ media_name Video @ ''.webm''"
    by (simp add: recordingsDir_def)
  have paths: "distinct [path (demo_chunk 0), path (demo_chunk 1), path (demo_chunk 2),
                         ''recordings/s1/recording_video.webm'']"
    by (simp add: demo_chunk_def)
  have p0: "files demo_chunk_world (path (demo_chunk 0)) = Some ''AB''"
    and p1: "files demo_chunk_world (path (demo_chunk 1)) = Some ''CD''"
    and p2: "files demo_chunk_world (path (demo_chunk 2)) = Some ''EF''"
    by (simp_all add: demo_chunk_def demo_chunk_world_def)
  have "\<exists>cw'. mergeChunks ''s1'' Video
            (fold (addChunk ''s1'') [demo_chunk 2, demo_chunk 0, demo_chunk 1] demo_chunk_world)
            = (Inr ''recordings/s1/recording_video.webm'', cw') \<and>
          files cw' ''recordings/s1/recording_video.webm'' = Some (''AB'' @ ''CD'' @ ''EF'') \<and>
          files cw' (path (demo_chunk 0)) = None \<and> files cw' (path (demo_chunk 1)) = None \<and>
          files cw' (path (demo_chunk 2)) = None \<and>
          tracked Video ''s1'' cw' = []"
    by (rule merge_in_index_order [OF perm _ _ _ _ _ _ fresh p0 p1 p2 out paths])
      (simp_all add: demo_chunk_def)
  then show ?thesis using perm fresh paths by auto
qed

section \<open>Processing Pipeline: lemmas\<close>

lemma loadSessions_trace [simp]: "loadSessions (w\<lparr>trace := tr\<rparr>) = loadSessions w"
  by (simp add: loadSessions_def split: file_state.splits)

lemma getSession_trace [simp]: "getSession sid (w\<lparr>trace := tr\<rparr>) = getSession sid w"
  by (simp add: getSession_def)

lemma stored_trace [simp]: "stored sid (w\<lparr>trace := tr\<rparr>) = stored sid w"
  by (simp add: stored_def)

lemma writes_succeed_trace [simp]: "writes_succeed n (w\<lparr>trace := tr\<rparr>) = writes_succeed n w"
  by (simp add: writes_succeed_def)

lemma updateSession_frame:
  "updateSession sid upd w = (r, w') \<Longrightarrow> trace w' = trace w \<and> now w' = now w"
  by (auto simp: updateSession_def saveSessions_def writeFile_def Let_def
      split: looked_up.splits list.splits write_outcome.splits)

lemma await_update_trace:
  "await_update sid upd w = (r, w') \<Longrightarrow>
   trace w' = trace w @ [UpdateCall sid upd (outcome r)] \<and> now w' = now w"
  by (auto simp: await_update_def called_def split: prod.splits dest: updateSession_frame)

lemma trace_emit [simp]: "trace (emit ev payload w) = trace w @ [Emit ev payload]"
  by (simp add: emit_def)

lemma trace_emitStatus [simp]:
  "trace (emitStatus sid st msg w) =
     trace w @ [Emit ''session_status''
                  (JObj [(''sessionId'', JStr sid), (''status'', JStr st), (''message'', JStr msg)])]"
  by (simp add: emitStatus_def)

lemma trace_called [simp]: "trace (called a w) = trace w @ [a]"
  by (simp add: called_def)

lemma now_emit [simp]: "now (emit ev payload w) = now w"
  by (simp add: emit_def)

lemma now_emitStatus [simp]: "now (emitStatus sid st msg w) = now w"
  by (simp add: emitStatus_def)

lemma now_called [simp]: "now (called a w) = now w"
  by (simp add: called_def)

lemma complete_without_ai_probes:
  "\<exists>acts. trace (snd (complete_without_ai sid w)) = trace w @ acts \<and>
          (\<forall>b. HealthCheckCall b \<notin> set acts)"
proof -
  let ?w2 = "emitStatus sid ''completed'' ''Processing complete (AI services unavailable)'' w"
  let ?U = "[(''status'', JStr ''completed''), (''processedAt'', JStr (now ?w2))]"
  obtain r w3 where aw: "await_update sid ?U ?w2 = (r, w3)"
    by (cases "await_update sid ?U ?w2")
  from await_update_trace [OF aw]
  have tr: "trace w3 = trace ?w2 @ [UpdateCall sid ?U (outcome r)]" by simp
  show ?thesis
  proof (cases r)
    case (Inl e)
    then show ?thesis
      using aw tr by (simp add: complete_without_ai_def Let_def)
  next
    case (Inr x)
    then have "outcome r \<noteq> Threw" by (cases x) simp_all
    with Inr show ?thesis
      using aw tr
      by (simp add: complete_without_ai_def Let_def)
  qed
qed

lemma synthesize_probes:
  "\<exists>acts. trace (snd (synthesize sid pr w)) = trace w @ acts \<and>
          (\<forall>b. HealthCheckCall b \<notin> set acts)"
proof -
  let ?w6 = "emitStatus sid ''synthesizing'' ''Generating AI voiceover with ElevenLabs...'' w"
  let ?U = "[(''synthesizedAudioPath'', synthesizedAudioPath pr),
             (''status'', JStr ''completed''), (''processedAt'', JStr (now ?w6))]"
  obtain r w7 where aw: "await_update sid ?U ?w6 = (r, w7)"
    by (cases "await_update sid ?U ?w6")
  from await_update_trace [OF aw]
  have tr: "trace w7 = trace ?w6 @ [UpdateCall sid ?U (outcome r)]" by simp
  show ?thesis
  proof (cases r)
    case (Inl e)
    then show ?thesis
      using aw tr by (simp add: synthesize_def Let_def)
  next
    case (Inr x)
    then have "outcome r \<noteq> Threw" by (cases x) simp_all
    with Inr show ?thesis
      using aw tr
      by (simp add: synthesize_def Let_def)
  qed
qed

lemma refine_probes:
  "\<exists>acts. trace (snd (refine env session t w)) = trace w @ acts \<and>
          (\<forall>b. HealthCheckCall b \<notin> set acts)"
proof -
  let ?sid = "sessionId_of session"
  let ?req = "JObj [(''sessionId'', JStr ?sid), (''audioPath'', JStr (audioPath_of session)),
                    (''rawTranscript'', JStr (rawText t)), (''domEvents'', events_or_empty session)]"
  let ?w3 = "called (ProcessAudioCall ?req)
               (emitStatus ?sid ''refining'' ''Refining script with Gemini AI...'' w)"
  show ?thesis
  proof (cases "processAudio env ?req")
    case (Inl e)
    then show ?thesis by (simp add: refine_def Let_def)
  next
    case (Inr pr)
    let ?U = "[(''refinedScript'', refinedScript_of t pr), (''status'', JStr ''synthesizing'')]"
    obtain r w4 where aw: "await_update ?sid ?U ?w3 = (r, w4)"
      by (cases "await_update ?sid ?U ?w3")
    from await_update_trace [OF aw]
    have tr: "trace w4 = trace ?w3 @ [UpdateCall ?sid ?U (outcome r)]" by simp
    show ?thesis
    proof (cases r)
      case (Inl e)
      then show ?thesis
        using Inr aw tr by (simp add: refine_def Let_def)
    next
      case r: (Inr x)
      then have nt: "outcome r \<noteq> Threw" by (cases x) simp_all
      let ?w5 = "emit ''refinement_ready''
                   (JObj [(''sessionId'', JStr ?sid), (''refinedScript'', refinedScript_of t pr)]) w4"
      obtain acts where acts: "trace (snd (synthesize ?sid pr ?w5)) = trace ?w5 @ acts"
        and np: "\<And>b. HealthCheckCall b \<notin> set acts"
        using synthesize_probes [of ?sid pr ?w5] by blast
      have run: "refine env session t w = synthesize ?sid pr ?w5"
        using Inr aw r by (simp add: refine_def Let_def)
      let ?pre = "[Emit ''session_status''
                     (JObj [(''sessionId'', JStr ?sid), (''status'', JStr ''refining''),
                            (''message'', JStr ''Refining script with Gemini AI...'')]),
                   ProcessAudioCall ?req,
                   UpdateCall ?sid ?U (outcome r),
                   Emit ''refinement_ready''
                     (JObj [(''sessionId'', JStr ?sid), (''refinedScript'', refinedScript_of t pr)])]"
      have "trace (snd (refine env session t w)) = trace w @ (?pre @ acts)"
        by (simp add: run acts tr)
      moreover have "HealthCheckCall b \<notin> set (?pre @ acts)" for b
        using np by simp
      ultimately show ?thesis by blast
    qed
  qed
qed

lemma enrich_probes:
  "\<exists>acts. trace (snd (enrich env session t w)) = trace w @ acts \<and>
          (\<forall>b. HealthCheckCall b \<in> set acts \<longrightarrow> b = healthCheck env)"
proof -
  let ?w1 = "called (HealthCheckCall (healthCheck env)) w"
  have "\<exists>acts. trace (snd (enrich env session t w)) = trace ?w1 @ acts \<and>
          (\<forall>b. HealthCheckCall b \<notin> set acts)"
    using complete_without_ai_probes [of "sessionId_of session" ?w1]
      refine_probes [of env session t ?w1]
    by (cases "healthCheck env") (simp_all add: enrich_def Let_def)
  then obtain acts
    where "trace (snd (enrich env session t w)) = trace w @ (HealthCheckCall (healthCheck env) # acts)"
    and "\<And>b. HealthCheckCall b \<notin> set acts"
    by auto
  then have "trace (snd (enrich env session t w)) = trace w @ (HealthCheckCall (healthCheck env) # acts) \<and>
             (\<forall>b. HealthCheckCall b \<in> set (HealthCheckCall (healthCheck env) # acts) \<longrightarrow> b = healthCheck env)"
    by simp
  then show ?thesis by blast
qed

lemma process_try_probes:
  "\<exists>acts. trace (snd (process_try env session w)) =
            trace w @ Emit ''session_status''
               (JObj [(''sessionId'', JStr (sessionId_of session)), (''status'', JStr ''transcribing''),
                      (''message'', JStr ''Transcribing audio with Deepgram...'')]) # acts \<and>
          (\<forall>b. HealthCheckCall b \<in> set acts \<longrightarrow> b = healthCheck env)"
proof -
  let ?sid = "sessionId_of session"
  let ?w1 = "emitStatus ?sid ''transcribing'' ''Transcribing audio with Deepgram...'' w"
  let ?none = "\<lparr>rawText = [], words = JArr [], confidence = JNum 0, duration = JNum 0\<rparr>"
  show ?thesis
  proof (cases "audioPath_of session \<noteq> [] \<and> isConfigured env")
    case True
    let ?w2 = "called (TranscribeCall (audioPath_of session)) ?w1"
    show ?thesis
    proof (cases "transcribeFile env (audioPath_of session)")
      case (Inl e)
      then show ?thesis using True by (simp add: process_try_def Let_def)
    next
      case (Inr tr)
      let ?U = "[(''transcription'', json_of_transcription tr), (''status'', JStr ''transcribing'')]"
      obtain r w3 where aw: "await_update ?sid ?U ?w2 = (r, w3)"
        by (cases "await_update ?sid ?U ?w2")
      from await_update_trace [OF aw]
      have tr3: "trace w3 = trace ?w2 @ [UpdateCall ?sid ?U (outcome r)]" by simp
      show ?thesis
      proof (cases r)
        case (Inl e)
        then show ?thesis
          using True Inr aw tr3 by (simp add: process_try_def Let_def)
      next
        case r: (Inr x)
        then have nt: "outcome r \<noteq> Threw" by (cases x) simp_all
        let ?w4 = "emit ''transcription_ready''
                     (JObj [(''sessionId'', JStr ?sid),
                            (''transcription'', json_of_transcription tr)]) w3"
        obtain acts where acts: "trace (snd (enrich env session tr ?w4)) = trace ?w4 @ acts"
            and pr: "\<And>b. HealthCheckCall b \<in> set acts \<Longrightarrow> b = healthCheck env"
          using enrich_probes [of env session tr ?w4] by blast
        have run: "process_try env session w = enrich env session tr ?w4"
          using True Inr aw r by (simp add: process_try_def Let_def)
        let ?pre = "[TranscribeCall (audioPath_of session), UpdateCall ?sid ?U (outcome r),
                     Emit ''transcription_ready''
                       (JObj [(''sessionId'', JStr ?sid),
                              (''transcription'', json_of_transcription tr)])]"
        have "trace (snd (process_try env session w)) =
                trace w @ Emit ''session_status''
                  (JObj [(''sessionId'', JStr ?sid), (''status'', JStr ''transcribing''),
                         (''message'', JStr ''Transcribing audio with Deepgram...'')]) # (?pre @ acts)"
          by (simp add: run acts tr3)
        moreover have "HealthCheckCall b \<in> set (?pre @ acts) \<longrightarrow> b = healthCheck env" for b
          using pr by simp
        ultimately show ?thesis by blast
      qed
    qed
  next
    case False
    show ?thesis
    proof (cases "isConfigured env")
      case True
      obtain acts where acts: "trace (snd (enrich env session ?none ?w1)) = trace ?w1 @ acts"
        and pr: "\<And>b. HealthCheckCall b \<in> set acts \<Longrightarrow> b = healthCheck env"
        using enrich_probes [of env session ?none ?w1] by blast
      have run: "process_try env session w = enrich env session ?none ?w1"
        using False True by (simp add: process_try_def Let_def)
      have "trace (snd (process_try env session w)) =
              trace w @ Emit ''session_status''
                (JObj [(''sessionId'', JStr ?sid), (''status'', JStr ''transcribing''),
                       (''message'', JStr ''Transcribing audio with Deepgram...'')]) # acts"
        by (simp add: run acts)
      with pr show ?thesis by blast
    next
      case nc: False
      let ?sk = "Emit ''session_status''
               (JObj [(''sessionId'', JStr ?sid), (''status'', JStr ''transcribing''),
                      (''message'', JStr ''Deepgram not configured, skipping...'')])"
      let ?w2 = "emitStatus ?sid ''transcribing'' ''Deepgram not configured, skipping...'' ?w1"
      obtain acts where acts: "trace (snd (enrich env session ?none ?w2)) = trace ?w2 @ acts"
        and pr: "\<And>b. HealthCheckCall b \<in> set acts \<Longrightarrow> b = healthCheck env"
        using enrich_probes [of env session ?none ?w2] by blast
      have run: "process_try env session w = enrich env session ?none ?w2"
        using nc by (simp add: process_try_def Let_def)
      have "trace (snd (process_try env session w)) =
              trace w @ Emit ''session_status''
                (JObj [(''sessionId'', JStr ?sid), (''status'', JStr ''transcribing''),
                       (''message'', JStr ''Transcribing audio with Deepgram...'')]) # (?sk # acts)"
        by (simp add: run acts)
      moreover have "HealthCheckCall b \<in> set (?sk # acts) \<longrightarrow> b = healthCheck env" for b
        using pr by simp
      ultimately show ?thesis by blast
    qed
  qed
qed

lemma process_probes:
  "\<exists>acts. trace (snd (process env session w)) =
            trace w @ Emit ''session_status''
               (JObj [(''sessionId'', JStr (sessionId_of session)), (''status'', JStr ''transcribing''),
                      (''message'', JStr ''Transcribing audio with Deepgram...'')]) # acts \<and>
          (\<forall>b. HealthCheckCall b \<in> set acts \<longrightarrow> b = healthCheck env)"
proof -
  let ?sid = "sessionId_of session"
  let ?st = "Emit ''session_status''
               (JObj [(''sessionId'', JStr ?sid), (''status'', JStr ''transcribing''),
                      (''message'', JStr ''Transcribing audio with Deepgram...'')])"
  obtain r w' where pt: "process_try env session w = (r, w')"
    by (cases "process_try env session w")
  obtain acts where acts: "trace w' = trace w @ ?st # acts"
    and pr: "\<And>b. HealthCheckCall b \<in> set acts \<Longrightarrow> b = healthCheck env"
    using process_try_probes [of env session w] pt by auto
  show ?thesis
  proof (cases r)
    case (Inr u)
    then have "process env session w = (Inr (), w')"
      using pt by (simp add: process_def)
    with acts pr show ?thesis by auto
  next
    case (Inl err)
    let ?U = "[(''status'', JStr ''error''), (''error'', JStr (message err))]"
    obtain r2 w2 where aw: "await_update ?sid ?U w' = (r2, w2)"
      by (cases "await_update ?sid ?U w'")
    from await_update_trace [OF aw]
    have tr: "trace w2 = trace w' @ [UpdateCall ?sid ?U (outcome r2)]" by simp
    let ?post = "UpdateCall ?sid ?U (outcome r2) #
                 (case r2 of Inl e \<Rightarrow> []
                  | Inr x \<Rightarrow> [Emit ''error'' (JObj [(''sessionId'', JStr ?sid),
                                                    (''error'', JStr (message err))])])"
    have "trace (snd (process env session w)) = trace w @ ?st # (acts @ ?post)"
      using pt Inl aw tr acts by (cases r2) (simp_all add: process_def)
    moreover have "HealthCheckCall b \<in> set (acts @ ?post) \<longrightarrow> b = healthCheck env" for b
      using pr by (cases r2) auto
    ultimately show ?thesis by blast
  qed
qed

lemma probe_reports:
  "HealthCheckCall b \<in> set (run_of env session w) \<Longrightarrow> b = healthCheck env"
  using process_probes [of env session w] by (auto simp: run_of_def)

lemmas pipeline_defs =
  run_of_def process_def process_try_def enrich_def refine_def synthesize_def
  complete_without_ai_def await_update_def called_def emit_def emitStatus_def
  updateSession_def lookup_def assign_def inherited_def saveSessions_def writeFile_def loadSessions_def spread_def
  sessionId_of_def audioPath_of_def events_or_empty_def json_of_transcription_def
  refinedScript_of_def Let_def


lemma stored_emit [simp]: "stored sid (emit ev payload w) = stored sid w"
  by (simp add: emit_def)

lemma stored_emitStatus [simp]: "stored sid (emitStatus sid' st msg w) = stored sid w"
  by (simp add: emitStatus_def)

lemma stored_called [simp]: "stored sid (called a w) = stored sid w"
  by (simp add: called_def)

lemma getSession_emit [simp]: "getSession sid (emit ev payload w) = getSession sid w"
  by (simp add: emit_def)

lemma getSession_emitStatus [simp]: "getSession sid (emitStatus sid' st msg w) = getSession sid w"
  by (simp add: emitStatus_def)

lemma getSession_called [simp]: "getSession sid (called a w) = getSession sid w"
  by (simp add: called_def)

lemma writes_succeed_emit [simp]: "writes_succeed n (emit ev payload w) = writes_succeed n w"
  by (simp add: emit_def)

lemma writes_succeed_emitStatus [simp]:
  "writes_succeed n (emitStatus sid st msg w) = writes_succeed n w"
  by (simp add: emitStatus_def)

lemma writes_succeed_called [simp]: "writes_succeed n (called a w) = writes_succeed n w"
  by (simp add: called_def)

lemma await_update_ok:
  assumes "stored sid w = Some old" and "writes_succeed (Suc n) w"
  shows "\<exists>w'. await_update sid upd w = (Inr (Some (spread old upd)), w') \<and>
              stored sid w' = Some (spread old upd) \<and>
              writes_succeed n w' \<and>
              trace w' = trace w @ [UpdateCall sid upd Merged] \<and>
              now w' = now w"
proof -
  have "writes_succeed n (w\<lparr>faults := tl (faults w)\<rparr>)"
    using assms(2) by (cases "faults w") (auto simp: writes_succeed_def)
  then show ?thesis
    using updateSession_ok [OF assms, of upd]
    by (simp add: await_update_def called_def stored_def loadSessions_def update_conv'
        writes_succeed_def)
qed

lemma await_update_absent:
  "getSession sid w = None \<Longrightarrow>
   await_update sid upd w = (Inr None, w\<lparr>trace := trace w @ [UpdateCall sid upd NoSuchSession]\<rparr>)"
  by (simp add: await_update_def updateSession_absent called_def)

lemma writes_succeed_mono:
  "writes_succeed n w \<Longrightarrow> m \<le> n \<Longrightarrow> writes_succeed m w"
  using set_take_subset_set_take [of m n "faults w"] by (auto simp: writes_succeed_def)









lemma complete_without_ai_ok:
  assumes ex: "stored sid w = Some old" and ok: "writes_succeed (Suc n) w"
  shows "\<exists>w'. complete_without_ai sid w = (Inr (), w') \<and>
              stored sid w' =
                Some (spread old [(''status'', JStr ''completed''), (''processedAt'', JStr (now w))]) \<and>
              trace w' = trace w @
                [Emit ''session_status''
                   (JObj [(''sessionId'', JStr sid), (''status'', JStr ''completed''),
                          (''message'', JStr ''Processing complete (AI services unavailable)'')]),
                 UpdateCall sid [(''status'', JStr ''completed''), (''processedAt'', JStr (now w))] Merged,
                 Emit ''session_complete'' (JObj [(''sessionId'', JStr sid)])]"
proof -
  let ?w2 = "emitStatus sid ''completed'' ''Processing complete (AI services unavailable)'' w"
  let ?U = "[(''status'', JStr ''completed''), (''processedAt'', JStr (now w))]"
  have ex2: "stored sid ?w2 = Some old" using ex by simp
  have ok2: "writes_succeed (Suc n) ?w2" using ok by simp
  from await_update_ok [OF ex2 ok2, of ?U]
  obtain w3 where "await_update sid ?U ?w2 = (Inr (Some (spread old ?U)), w3)"
    and "stored sid w3 = Some (spread old ?U)"
    and "trace w3 = trace ?w2 @ [UpdateCall sid ?U Merged]"
    by blast
  then show ?thesis
    by (simp add: complete_without_ai_def Let_def)
qed

text \<open>With no other handler the run among other handlers is the run alone.\<close>

lemma complete_without_ai_alone:
  "complete_without_ai_amid (\<lambda>p w. w) sid w = complete_without_ai sid w"
  unfolding complete_without_ai_amid_def complete_without_ai_def ..

lemma synthesize_alone:
  "synthesize_amid (\<lambda>p w. w) sid pr w = synthesize sid pr w"
  unfolding synthesize_amid_def synthesize_def ..

lemma refine_alone:
  "refine_amid (\<lambda>p w. w) env session t w = refine env session t w"
  unfolding refine_amid_def refine_def synthesize_alone ..

lemma enrich_alone:
  "enrich_amid (\<lambda>p w. w) env session t w = enrich env session t w"
  unfolding enrich_amid_def enrich_def complete_without_ai_alone refine_alone ..

lemma process_try_alone:
  "process_try_amid (\<lambda>p w. w) env session w = process_try env session w"
  unfolding process_try_amid_def process_try_def enrich_alone ..

lemma process_alone:
  "process_amid (\<lambda>p w. w) env session w = process env session w"
  unfolding process_amid_def process_def process_try_alone ..

lemma deleted_in_append [simp]: "deleted_in (xs @ ys) = (deleted_in xs \<or> deleted_in ys)"
  by (induction xs rule: deleted_in.induct) auto

lemma null_after_deletion_append:
  "null_after_deletion g (xs @ ys) =
     (null_after_deletion g xs \<and> null_after_deletion (g \<or> deleted_in xs) ys)"
  by (induction g xs rule: null_after_deletion.induct) (auto simp: disj_assoc)

lemma stretch_start: "(g \<longrightarrow> getSession sid w = None) \<Longrightarrow> stretch sid g w [] w"
  by (simp add: stretch_def)

lemma stretch_emit:
  "stretch sid g w0 acts w \<Longrightarrow> ev \<noteq> ''session_deleted'' \<Longrightarrow>
   stretch sid g w0 (acts @ [Emit ev p]) (emit ev p w)"
  by (simp add: stretch_def null_after_deletion_append)

lemma stretch_emitStatus:
  "stretch sid g w0 acts w \<Longrightarrow>
   stretch sid g w0
     (acts @ [Emit ''session_status''
                (JObj [(''sessionId'', JStr sid'), (''status'', JStr st), (''message'', JStr msg)])])
     (emitStatus sid' st msg w)"
  unfolding emitStatus_def by (rule stretch_emit) simp_all

lemma stretch_called:
  "stretch sid g w0 acts w \<Longrightarrow> \<not> is_update a \<Longrightarrow> \<not> deleted_in [a] \<Longrightarrow>
   stretch sid g w0 (acts @ [a]) (called a w)"
  by (cases a) (simp_all add: stretch_def null_after_deletion_append)

lemma stretch_update:
  assumes pre: "stretch sid g w0 acts w" and aw: "await_update sid U w = (r, w')"
  shows "stretch sid g w0 (acts @ [UpdateCall sid U (outcome r)]) w'"
proof (cases "g \<or> deleted_in acts")
  case True
  with pre have "getSession sid w = None" by (simp add: stretch_def)
  from await_update_absent [OF this, of U] aw
  have "r = Inr None" and "w' = w\<lparr>trace := trace w @ [UpdateCall sid U NoSuchSession]\<rparr>"
    by simp_all
  then show ?thesis
    using pre True by (simp add: stretch_def null_after_deletion_append)
next
  case False
  from await_update_trace [OF aw]
  have "trace w' = trace w @ [UpdateCall sid U (outcome r)]" by simp
  then show ?thesis
    using pre False by (simp add: stretch_def null_after_deletion_append)
qed

lemma deleteSession_cases:
  fixes w :: pipeline_world
  assumes ord: "sid \<notin> set inherited" and d: "deleteSession sid w = (r, w')"
  shows "trace w' = trace w \<and>
         (getSession sid w = None \<longrightarrow> w' = w) \<and>
         (r = Inr True \<longrightarrow> getSession sid w' = None)"
proof (cases "map_of (sessions (loadSessions w)) sid")
  case None
  then show ?thesis
    using ord d by (simp add: deleteSession_def getSession_def lookup_def)
next
  case (Some s)
  let ?w1 = "w\<lparr>removed := removed w @ [recordingsDir @ ''/'' @ sid]\<rparr>"
  let ?store = "(loadSessions w)\<lparr>sessions := AList.delete sid (sessions (loadSessions w))\<rparr>"
  obtain r1 w2 where sv: "saveSessions ?store ?w1 = (r1, w2)"
    by (cases "saveSessions ?store ?w1")
  have tr: "trace w2 = trace w"
    using sv by (auto simp: saveSessions_def writeFile_def split: list.splits write_outcome.splits)
  from saveSessions_cases [OF sv]
  have written: "r1 = Inr () \<longrightarrow> sessionsFile w2 = Stored (?store\<lparr>lastUpdated := now ?w1\<rparr>)"
    by auto
  have res: "r = (case r1 of Inl e \<Rightarrow> Inl e | Inr u \<Rightarrow> Inr True)" and w': "w' = w2"
    using d Some sv unfolding deleteSession_def Let_def lookup_def
    by (simp_all split: sum.splits)
  have "r = Inr True \<longrightarrow> getSession sid w' = None"
  proof
    assume "r = Inr True"
    with res have "r1 = Inr ()" by (cases r1) simp_all
    with written have "sessionsFile w2 = Stored (?store\<lparr>lastUpdated := now ?w1\<rparr>)" by simp
    then show "getSession sid w' = None"
      using ord by (simp add: w' getSession_def lookup_def loadSessions_def delete_conv')
  qed
  moreover have "getSession sid w = None \<longrightarrow> w' = w"
    using Some by (simp add: getSession_def lookup_def)
  moreover have "trace w' = trace w" using tr w' by simp
  ultimately show ?thesis by blast
qed

lemma stretch_delete_route:
  assumes pre: "stretch sid g w0 acts w" and ord: "sid \<notin> set inherited"
  shows "\<exists>hs. stretch sid g w0 (acts @ hs) (delete_route sid w)"
proof -
  obtain r w1 where d: "deleteSession sid w = (r, w1)"
    by (cases "deleteSession sid w")
  note c = deleteSession_cases [OF ord d]
  show ?thesis
  proof (cases "r = Inr True")
    case True
    let ?e = "Emit ''session_deleted'' (JObj [(''sessionId'', JStr sid)])"
    have dr: "delete_route sid w = emit ''session_deleted'' (JObj [(''sessionId'', JStr sid)]) w1"
      using d True by (simp add: delete_route_def)
    have "stretch sid g w0 (acts @ [?e]) (delete_route sid w)"
      using pre c True by (simp add: dr stretch_def null_after_deletion_append)
    then show ?thesis ..
  next
    case False
    have dr: "delete_route sid w = w1"
      using d False by (simp add: delete_route_def split: sum.splits bool.splits)
    have "stretch sid g w0 (acts @ []) (delete_route sid w)"
      using pre c by (auto simp: dr stretch_def)
    then show ?thesis ..
  qed
qed

lemma stretch_others:
  assumes pre: "stretch sid g w0 acts w" and ord: "sid \<notin> set inherited"
  shows "\<exists>hs. stretch sid g w0 (acts @ hs) (deleting_at points sid p w)"
proof (cases "p \<in> set points")
  case True
  then show ?thesis
    using stretch_delete_route [OF pre ord] by (simp add: deleting_at_def)
next
  case False
  then have "stretch sid g w0 (acts @ []) (deleting_at points sid p w)"
    using pre by (simp add: deleting_at_def)
  then show ?thesis ..
qed

lemma complete_without_ai_amid_stretch:
  assumes pre: "stretch sid g w0 acts w" and ord: "sid \<notin> set inherited"
  shows "\<exists>res w' more.
           complete_without_ai_amid (deleting_at points sid) sid w = (res, w') \<and>
           stretch sid g w0 (acts @ more) w' \<and>
           (res = Inr () \<longrightarrow>
              more \<noteq> [] \<and> (\<exists>payload. last more = Emit ''session_complete'' payload))"
proof -
  let ?e1 = "Emit ''session_status''
               (JObj [(''sessionId'', JStr sid), (''status'', JStr ''completed''),
                      (''message'', JStr ''Processing complete (AI services unavailable)'')])"
  let ?w2 = "emitStatus sid ''completed'' ''Processing complete (AI services unavailable)'' w"
  let ?U = "[(''status'', JStr ''completed''), (''processedAt'', JStr (now ?w2))]"
  have s2: "stretch sid g w0 (acts @ [?e1]) ?w2"
    by (rule stretch_emitStatus [OF pre])
  from stretch_others [OF s2 ord]
  obtain hs where s3: "stretch sid g w0 ((acts @ [?e1]) @ hs)
                         (deleting_at points sid AwaitSaveCompleted ?w2)"
    by blast
  obtain r w3 where aw: "await_update sid ?U (deleting_at points sid AwaitSaveCompleted ?w2) = (r, w3)"
    by (cases "await_update sid ?U (deleting_at points sid AwaitSaveCompleted ?w2)")
  note s4 = stretch_update [OF s3 aw]
  show ?thesis
  proof (cases r)
    case (Inl e)
    have "complete_without_ai_amid (deleting_at points sid) sid w = (Inl e, w3)"
      using aw Inl by (simp add: complete_without_ai_amid_def Let_def)
    moreover have "stretch sid g w0 (acts @ (?e1 # hs @ [UpdateCall sid ?U (outcome r)])) w3"
      using s4 by simp
    ultimately show ?thesis by blast
  next
    case (Inr x)
    let ?e3 = "Emit ''session_complete'' (JObj [(''sessionId'', JStr sid)])"
    have "complete_without_ai_amid (deleting_at points sid) sid w =
            (Inr (), emit ''session_complete'' (JObj [(''sessionId'', JStr sid)]) w3)"
      using aw Inr by (simp add: complete_without_ai_amid_def Let_def)
    moreover have "stretch sid g w0 (acts @ (?e1 # hs @ [UpdateCall sid ?U (outcome r), ?e3]))
                     (emit ''session_complete'' (JObj [(''sessionId'', JStr sid)]) w3)"
      using stretch_emit [OF s4, of "''session_complete''" "JObj [(''sessionId'', JStr sid)]"]
      by simp
    moreover have "last (?e1 # hs @ [UpdateCall sid ?U (outcome r), ?e3]) = ?e3" by simp
    ultimately show ?thesis by blast
  qed
qed

lemma synthesize_amid_stretch:
  assumes pre: "stretch sid g w0 acts w" and ord: "sid \<notin> set inherited"
  shows "\<exists>res w' more.
           synthesize_amid (deleting_at points sid) sid pr w = (res, w') \<and>
           stretch sid g w0 (acts @ more) w' \<and>
           (res = Inr () \<longrightarrow>
              more \<noteq> [] \<and> (\<exists>payload. last more = Emit ''session_complete'' payload))"
proof -
  let ?e1 = "Emit ''session_status''
               (JObj [(''sessionId'', JStr sid), (''status'', JStr ''synthesizing''),
                      (''message'', JStr ''Generating AI voiceover with ElevenLabs...'')])"
  let ?w6 = "emitStatus sid ''synthesizing'' ''Generating AI voiceover with ElevenLabs...'' w"
  let ?U = "[(''synthesizedAudioPath'', synthesizedAudioPath pr),
             (''status'', JStr ''completed''), (''processedAt'', JStr (now ?w6))]"
  have s2: "stretch sid g w0 (acts @ [?e1]) ?w6"
    by (rule stretch_emitStatus [OF pre])
  from stretch_others [OF s2 ord]
  obtain hs where s3: "stretch sid g w0 ((acts @ [?e1]) @ hs)
                         (deleting_at points sid AwaitSaveSynthesized ?w6)"
    by blast
  obtain r w7 where aw: "await_update sid ?U (deleting_at points sid AwaitSaveSynthesized ?w6) = (r, w7)"
    by (cases "await_update sid ?U (deleting_at points sid AwaitSaveSynthesized ?w6)")
  note s4 = stretch_update [OF s3 aw]
  show ?thesis
  proof (cases r)
    case (Inl e)
    have "synthesize_amid (deleting_at points sid) sid pr w = (Inl e, w7)"
      using aw Inl by (simp add: synthesize_amid_def Let_def)
    moreover have "stretch sid g w0 (acts @ (?e1 # hs @ [UpdateCall sid ?U (outcome r)])) w7"
      using s4 by simp
    ultimately show ?thesis by blast
  next
    case (Inr x)
    let ?p8 = "JObj [(''sessionId'', JStr sid), (''audioPath'', synthesizedAudioPath pr)]"
    let ?e9 = "Emit ''session_status''
                 (JObj [(''sessionId'', JStr sid), (''status'', JStr ''completed''),
                        (''message'', JStr ''Processing complete!'')])"
    let ?e10 = "Emit ''session_complete'' (JObj [(''sessionId'', JStr sid)])"
    let ?w10 = "emit ''session_complete'' (JObj [(''sessionId'', JStr sid)])
                  (emitStatus sid ''completed'' ''Processing complete!''
                     (emit ''synthesis_ready'' ?p8 w7))"
    have s5: "stretch sid g w0 ((acts @ [?e1]) @ hs @ [UpdateCall sid ?U (outcome r)] @
                 [Emit ''synthesis_ready'' ?p8]) (emit ''synthesis_ready'' ?p8 w7)"
      using stretch_emit [OF s4, of "''synthesis_ready''" ?p8] by simp
    have s6: "stretch sid g w0 (((acts @ [?e1]) @ hs @ [UpdateCall sid ?U (outcome r)] @
                 [Emit ''synthesis_ready'' ?p8]) @ [?e9])
                (emitStatus sid ''completed'' ''Processing complete!''
                   (emit ''synthesis_ready'' ?p8 w7))"
      by (rule stretch_emitStatus [OF s5])
    have "synthesize_amid (deleting_at points sid) sid pr w = (Inr (), ?w10)"
      using aw Inr by (simp add: synthesize_amid_def Let_def)
    moreover have "stretch sid g w0
                     (acts @ (?e1 # hs @ [UpdateCall sid ?U (outcome r),
                                           Emit ''synthesis_ready'' ?p8, ?e9, ?e10])) ?w10"
      using stretch_emit [OF s6, of "''session_complete''" "JObj [(''sessionId'', JStr sid)]"]
      by simp
    moreover have "last (?e1 # hs @ [UpdateCall sid ?U (outcome r),
                                      Emit ''synthesis_ready'' ?p8, ?e9, ?e10]) = ?e10"
      by simp
    ultimately show ?thesis by blast
  qed
qed

lemma refine_amid_stretch:
  assumes pre: "stretch (sessionId_of session) g w0 acts w"
    and ord: "sessionId_of session \<notin> set inherited"
  shows "\<exists>res w' more.
           refine_amid (deleting_at points (sessionId_of session)) env session t w = (res, w') \<and>
           stretch (sessionId_of session) g w0 (acts @ more) w' \<and>
           (res = Inr () \<longrightarrow>
              more \<noteq> [] \<and> (\<exists>payload. last more = Emit ''session_complete'' payload))"
proof -
  let ?sid = "sessionId_of session"
  let ?others = "deleting_at points ?sid"
  let ?req = "JObj [(''sessionId'', JStr ?sid), (''audioPath'', JStr (audioPath_of session)),
                    (''rawTranscript'', JStr (rawText t)), (''domEvents'', events_or_empty session)]"
  let ?e1 = "Emit ''session_status''
               (JObj [(''sessionId'', JStr ?sid), (''status'', JStr ''refining''),
                      (''message'', JStr ''Refining script with Gemini AI...'')])"
  let ?w2 = "emitStatus ?sid ''refining'' ''Refining script with Gemini AI...'' w"
  let ?w2c = "called (ProcessAudioCall ?req) ?w2"
  let ?w3 = "?others AwaitProcessAudio ?w2c"
  have s2: "stretch ?sid g w0 (acts @ [?e1]) ?w2"
    by (rule stretch_emitStatus [OF pre])
  have s2c: "stretch ?sid g w0 ((acts @ [?e1]) @ [ProcessAudioCall ?req]) ?w2c"
    by (rule stretch_called [OF s2]) simp_all
  from stretch_others [OF s2c ord]
  obtain hs where s3: "stretch ?sid g w0 (((acts @ [?e1]) @ [ProcessAudioCall ?req]) @ hs) ?w3"
    by blast
  show ?thesis
  proof (cases "processAudio env ?req")
    case (Inl e)
    have "refine_amid ?others env session t w = (Inl e, ?w3)"
      using Inl by (simp add: refine_amid_def Let_def)
    moreover have "stretch ?sid g w0 (acts @ (?e1 # ProcessAudioCall ?req # hs)) ?w3"
      using s3 by simp
    ultimately show ?thesis by blast
  next
    case (Inr pr)
    let ?U = "[(''refinedScript'', refinedScript_of t pr), (''status'', JStr ''synthesizing'')]"
    from stretch_others [OF s3 ord]
    obtain hs' where s3': "stretch ?sid g w0 ((((acts @ [?e1]) @ [ProcessAudioCall ?req]) @ hs) @ hs')
                             (?others AwaitSaveRefined ?w3)"
      by blast
    obtain r w4 where aw: "await_update ?sid ?U (?others AwaitSaveRefined ?w3) = (r, w4)"
      by (cases "await_update ?sid ?U (?others AwaitSaveRefined ?w3)")
    note s4 = stretch_update [OF s3' aw]
    show ?thesis
    proof (cases r)
      case (Inl e)
      have "refine_amid ?others env session t w = (Inl e, w4)"
        using Inr aw Inl by (simp add: refine_amid_def Let_def)
      moreover have "stretch ?sid g w0
                       (acts @ (?e1 # ProcessAudioCall ?req # hs @ hs' @
                                [UpdateCall ?sid ?U (outcome r)])) w4"
        using s4 by simp
      ultimately show ?thesis by blast
    next
      case r: (Inr x)
      let ?p5 = "JObj [(''sessionId'', JStr ?sid), (''refinedScript'', refinedScript_of t pr)]"
      let ?w5 = "emit ''refinement_ready'' ?p5 w4"
      let ?mid = "?e1 # ProcessAudioCall ?req # hs @ hs' @
                  [UpdateCall ?sid ?U (outcome r), Emit ''refinement_ready'' ?p5]"
      have s5: "stretch ?sid g w0 (acts @ ?mid) ?w5"
        using stretch_emit [OF s4, of "''refinement_ready''" ?p5] by simp
      from synthesize_amid_stretch [OF s5 ord, of points pr]
      obtain res w' more where sy: "synthesize_amid ?others ?sid pr ?w5 = (res, w')"
        and s6: "stretch ?sid g w0 ((acts @ ?mid) @ more) w'"
        and fin: "res = Inr () \<longrightarrow>
                    more \<noteq> [] \<and> (\<exists>payload. last more = Emit ''session_complete'' payload)"
        by blast
      have "refine_amid ?others env session t w = (res, w')"
        using Inr aw r sy by (simp add: refine_amid_def Let_def)
      moreover have "stretch ?sid g w0 (acts @ (?mid @ more)) w'"
        using s6 by simp
      moreover have "res = Inr () \<longrightarrow> ?mid @ more \<noteq> [] \<and>
                       (\<exists>payload. last (?mid @ more) = Emit ''session_complete'' payload)"
        using fin by auto
      ultimately show ?thesis by blast
    qed
  qed
qed

lemma enrich_amid_stretch:
  assumes pre: "stretch (sessionId_of session) g w0 acts w"
    and ord: "sessionId_of session \<notin> set inherited"
  shows "\<exists>res w' more.
           enrich_amid (deleting_at points (sessionId_of session)) env session t w = (res, w') \<and>
           stretch (sessionId_of session) g w0 (acts @ more) w' \<and>
           (res = Inr () \<longrightarrow>
              more \<noteq> [] \<and> (\<exists>payload. last more = Emit ''session_complete'' payload))"
proof -
  let ?sid = "sessionId_of session"
  let ?others = "deleting_at points ?sid"
  let ?h = "HealthCheckCall (healthCheck env)"
  let ?w1 = "?others AwaitHealth (called ?h w)"
  have s1: "stretch ?sid g w0 (acts @ [?h]) (called ?h w)"
    by (rule stretch_called [OF pre]) simp_all
  from stretch_others [OF s1 ord]
  obtain hs where s2: "stretch ?sid g w0 ((acts @ [?h]) @ hs) ?w1"
    by blast
  have "\<exists>res w' more.
           enrich_amid ?others env session t w = (res, w') \<and>
           stretch ?sid g w0 (((acts @ [?h]) @ hs) @ more) w' \<and>
           (res = Inr () \<longrightarrow>
              more \<noteq> [] \<and> (\<exists>payload. last more = Emit ''session_complete'' payload))"
  proof (cases "healthCheck env")
    case True
    then have "enrich_amid ?others env session t w = refine_amid ?others env session t ?w1"
      by (simp add: enrich_amid_def Let_def)
    then show ?thesis
      using refine_amid_stretch [OF s2 ord, of points env t] by simp
  next
    case False
    then have "enrich_amid ?others env session t w = complete_without_ai_amid ?others ?sid ?w1"
      by (simp add: enrich_amid_def Let_def)
    then show ?thesis
      using complete_without_ai_amid_stretch [OF s2 ord, of points] by simp
  qed
  then obtain res w' more where e: "enrich_amid ?others env session t w = (res, w')"
    and s3: "stretch ?sid g w0 (((acts @ [?h]) @ hs) @ more) w'"
    and fin: "res = Inr () \<longrightarrow>
                more \<noteq> [] \<and> (\<exists>payload. last more = Emit ''session_complete'' payload)"
    by blast
  have "stretch ?sid g w0 (acts @ (?h # hs @ more)) w'"
    using s3 by simp
  moreover have "res = Inr () \<longrightarrow> ?h # hs @ more \<noteq> [] \<and>
                   (\<exists>payload. last (?h # hs @ more) = Emit ''session_complete'' payload)"
    using fin by auto
  ultimately show ?thesis using e by blast
qed

lemma process_try_amid_stretch:
  assumes pre: "stretch (sessionId_of session) g w0 acts w"
    and ord: "sessionId_of session \<notin> set inherited"
  shows "\<exists>res w' more.
           process_try_amid (deleting_at points (sessionId_of session)) env session w = (res, w') \<and>
           stretch (sessionId_of session) g w0 (acts @ more) w' \<and>
           (res = Inr () \<longrightarrow>
              more \<noteq> [] \<and> (\<exists>payload. last more = Emit ''session_complete'' payload))"
proof -
  let ?sid = "sessionId_of session"
  let ?others = "deleting_at points ?sid"
  let ?e1 = "Emit ''session_status''
               (JObj [(''sessionId'', JStr ?sid), (''status'', JStr ''transcribing''),
                      (''message'', JStr ''Transcribing audio with Deepgram...'')])"
  let ?w1 = "emitStatus ?sid ''transcribing'' ''Transcribing audio with Deepgram...'' w"
  let ?none = "\<lparr>rawText = [], words = JArr [], confidence = JNum 0, duration = JNum 0\<rparr>"
  have s1: "stretch ?sid g w0 (acts @ [?e1]) ?w1"
    by (rule stretch_emitStatus [OF pre])
  have step: "\<exists>res w' more.
           process_try_amid ?others env session w = (res, w') \<and>
           stretch ?sid g w0 (acts @ more) w' \<and>
           (res = Inr () \<longrightarrow>
              more \<noteq> [] \<and> (\<exists>payload. last more = Emit ''session_complete'' payload))"
    if run: "process_try_amid ?others env session w = enrich_amid ?others env session t v"
      and sv: "stretch ?sid g w0 (acts @ mid) v"
    for t v mid
  proof -
    from enrich_amid_stretch [OF sv ord, of points env t]
    obtain res w' more where e: "enrich_amid ?others env session t v = (res, w')"
      and s: "stretch ?sid g w0 ((acts @ mid) @ more) w'"
      and fin: "res = Inr () \<longrightarrow>
                  more \<noteq> [] \<and> (\<exists>payload. last more = Emit ''session_complete'' payload)"
      by blast
    have "process_try_amid ?others env session w = (res, w')"
      using run e by simp
    moreover have "stretch ?sid g w0 (acts @ (mid @ more)) w'" using s by simp
    moreover have "res = Inr () \<longrightarrow> mid @ more \<noteq> [] \<and>
                     (\<exists>payload. last (mid @ more) = Emit ''session_complete'' payload)"
      using fin by auto
    ultimately show ?thesis by blast
  qed
  show ?thesis
  proof (cases "audioPath_of session \<noteq> [] \<and> isConfigured env")
    case True
    let ?c = "TranscribeCall (audioPath_of session)"
    let ?w2 = "?others AwaitTranscribe (called ?c ?w1)"
    have s1c: "stretch ?sid g w0 ((acts @ [?e1]) @ [?c]) (called ?c ?w1)"
      by (rule stretch_called [OF s1]) simp_all
    from stretch_others [OF s1c ord]
    obtain hs where s2: "stretch ?sid g w0 (((acts @ [?e1]) @ [?c]) @ hs) ?w2"
      by blast
    show ?thesis
    proof (cases "transcribeFile env (audioPath_of session)")
      case (Inl e)
      have "process_try_amid ?others env session w = (Inl e, ?w2)"
        using True Inl by (simp add: process_try_amid_def Let_def)
      moreover have "stretch ?sid g w0 (acts @ (?e1 # ?c # hs)) ?w2"
        using s2 by simp
      ultimately show ?thesis by blast
    next
      case (Inr tr)
      let ?U = "[(''transcription'', json_of_transcription tr), (''status'', JStr ''transcribing'')]"
      from stretch_others [OF s2 ord]
      obtain hs' where s2': "stretch ?sid g w0 ((((acts @ [?e1]) @ [?c]) @ hs) @ hs')
                               (?others AwaitSaveTranscription ?w2)"
        by blast
      obtain r w3 where aw: "await_update ?sid ?U (?others AwaitSaveTranscription ?w2) = (r, w3)"
        by (cases "await_update ?sid ?U (?others AwaitSaveTranscription ?w2)")
      note s3 = stretch_update [OF s2' aw]
      show ?thesis
      proof (cases r)
        case (Inl e)
        have "process_try_amid ?others env session w = (Inl e, w3)"
          using True Inr aw Inl by (simp add: process_try_amid_def Let_def)
        moreover have "stretch ?sid g w0
                         (acts @ (?e1 # ?c # hs @ hs' @ [UpdateCall ?sid ?U (outcome r)])) w3"
          using s3 by simp
        ultimately show ?thesis by blast
      next
        case r: (Inr x)
        let ?p4 = "JObj [(''sessionId'', JStr ?sid), (''transcription'', json_of_transcription tr)]"
        let ?w4 = "emit ''transcription_ready'' ?p4 w3"
        let ?mid = "?e1 # ?c # hs @ hs' @
                    [UpdateCall ?sid ?U (outcome r), Emit ''transcription_ready'' ?p4]"
        have s4: "stretch ?sid g w0 (acts @ ?mid) ?w4"
          using stretch_emit [OF s3, of "''transcription_ready''" ?p4] by simp
        have run: "process_try_amid ?others env session w = enrich_amid ?others env session tr ?w4"
          using True Inr aw r by (simp add: process_try_amid_def Let_def)
        show ?thesis by (rule step [OF run s4])
      qed
    qed
  next
    case False
    show ?thesis
    proof (cases "isConfigured env")
      case True
      have run: "process_try_amid ?others env session w = enrich_amid ?others env session ?none ?w1"
        using False True by (simp add: process_try_amid_def Let_def)
      show ?thesis by (rule step [OF run s1])
    next
      case nc: False
      let ?w2 = "emitStatus ?sid ''transcribing'' ''Deepgram not configured, skipping...'' ?w1"
      have s2: "stretch ?sid g w0
                  (acts @ [?e1, Emit ''session_status''
                     (JObj [(''sessionId'', JStr ?sid), (''status'', JStr ''transcribing''),
                            (''message'', JStr ''Deepgram not configured, skipping...'')])]) ?w2"
        using stretch_emitStatus [OF s1, of ?sid "''transcribing''"
            "''Deepgram not configured, skipping...''"]
        by simp
      have run: "process_try_amid ?others env session w = enrich_amid ?others env session ?none ?w2"
        using nc by (simp add: process_try_amid_def Let_def)
      show ?thesis by (rule step [OF run s2])
    qed
  qed
qed

lemma demo_run_unavailable:
  "run_of (demo_gateways False) demo_stopped demo_pipeline_world =
     [Emit ''session_status''
        (JObj [(''sessionId'', JStr ''s1''), (''status'', JStr ''transcribing''),
               (''message'', JStr ''Transcribing audio with Deepgram...'')]),
      TranscribeCall ''recordings/s1/recording_audio.webm'',
      UpdateCall ''s1''
        [(''transcription'', json_of_transcription demo_transcription),
         (''status'', JStr ''transcribing'')] Merged,
      Emit ''transcription_ready''
        (JObj [(''sessionId'', JStr ''s1''),
               (''transcription'', json_of_transcription demo_transcription)]),
      HealthCheckCall False,
      Emit ''session_status''
        (JObj [(''sessionId'', JStr ''s1''), (''status'', JStr ''completed''),
               (''message'', JStr ''Processing complete (AI services unavailable)'')]),
      UpdateCall ''s1'' [(''status'', JStr ''completed''), (''processedAt'', JStr ''t1'')] Merged,
      Emit ''session_complete'' (JObj [(''sessionId'', JStr ''s1'')])]"
  by (simp add: pipeline_defs demo_gateways_def demo_stopped_def demo_pipeline_world_def
      demo_store_def demo_transcription_def)

lemma demo_run_amid:
  "run_amid (deleting_at [AwaitHealth] ''s1'') (demo_gateways True) demo_stopped demo_pipeline_world =
     [Emit ''session_status''
        (JObj [(''sessionId'', JStr ''s1''), (''status'', JStr ''transcribing''),
               (''message'', JStr ''Transcribing audio with Deepgram...'')]),
      TranscribeCall ''recordings/s1/recording_audio.webm'',
      UpdateCall ''s1''
        [(''transcription'', json_of_transcription demo_transcription),
         (''status'', JStr ''transcribing'')] Merged,
      Emit ''transcription_ready''
        (JObj [(''sessionId'', JStr ''s1''),
               (''transcription'', json_of_transcription demo_transcription)]),
      HealthCheckCall True,
      Emit ''session_deleted'' (JObj [(''sessionId'', JStr ''s1'')]),
      Emit ''session_status''
        (JObj [(''sessionId'', JStr ''s1''), (''status'', JStr ''refining''),
               (''message'', JStr ''Refining script with Gemini AI...'')]),
      ProcessAudioCall
        (JObj [(''sessionId'', JStr ''s1''),
               (''audioPath'', JStr ''recordings/s1/recording_audio.webm''),
               (''rawTranscript'', JStr ''hello''), (''domEvents'', JArr [])]),
      UpdateCall ''s1''
        [(''refinedScript'', refinedScript_of demo_transcription demo_response),
         (''status'', JStr ''synthesizing'')] NoSuchSession,
      Emit ''refinement_ready''
        (JObj [(''sessionId'', JStr ''s1''),
               (''refinedScript'', refinedScript_of demo_transcription demo_response)]),
      Emit ''session_status''
        (JObj [(''sessionId'', JStr ''s1''), (''status'', JStr ''synthesizing''),
               (''message'', JStr ''Generating AI voiceover with ElevenLabs...'')]),
      UpdateCall ''s1''
        [(''synthesizedAudioPath'', JStr ''recordings/s1/voice.mp3''),
         (''status'', JStr ''completed''), (''processedAt'', JStr ''t1'')] NoSuchSession,
      Emit ''synthesis_ready''
        (JObj [(''sessionId'', JStr ''s1''), (''audioPath'', JStr ''recordings/s1/voice.mp3'')]),
      Emit ''session_status''
        (JObj [(''sessionId'', JStr ''s1''), (''status'', JStr ''completed''),
               (''message'', JStr ''Processing complete!'')]),
      Emit ''session_complete'' (JObj [(''sessionId'', JStr ''s1'')])]"
  by (simp add: run_amid_def process_amid_def process_try_amid_def enrich_amid_def refine_amid_def
      synthesize_amid_def deleting_at_def delete_route_def deleteSession_def recordingsDir_def
      await_update_def called_def emit_def emitStatus_def
      updateSession_def lookup_def assign_def inherited_def saveSessions_def writeFile_def
      loadSessions_def spread_def sessionId_of_def audioPath_of_def events_or_empty_def
      json_of_transcription_def refinedScript_of_def Let_def
      demo_gateways_def demo_stopped_def demo_pipeline_world_def
      demo_store_def demo_transcription_def demo_response_def)

lemma demo_deleted_world_eq:
  "demo_deleted_world =
     \<lparr>sessionsFile = Stored \<lparr>sessions = [], lastUpdated = ''t1''\<rparr>, now = ''t1'', faults = [],
      removed = [''recordings/s1''], trace = []\<rparr>"
  by (simp add: demo_deleted_world_def deleteSession_def lookup_def saveSessions_def writeFile_def
      loadSessions_def demo_pipeline_world_def demo_store_def recordingsDir_def Let_def)

lemma demo_run_deleted:
  "run_of (demo_gateways True) demo_stopped demo_deleted_world =
     [Emit ''session_status''
        (JObj [(''sessionId'', JStr ''s1''), (''status'', JStr ''transcribing''),
               (''message'', JStr ''Transcribing audio with Deepgram...'')]),
      TranscribeCall ''recordings/s1/recording_audio.webm'',
      UpdateCall ''s1''
        [(''transcription'', json_of_transcription demo_transcription),
         (''status'', JStr ''transcribing'')] NoSuchSession,
      Emit ''transcription_ready''
        (JObj [(''sessionId'', JStr ''s1''),
               (''transcription'', json_of_transcription demo_transcription)]),
      HealthCheckCall True,
      Emit ''session_status''
        (JObj [(''sessionId'', JStr ''s1''), (''status'', JStr ''refining''),
               (''message'', JStr ''Refining script with Gemini AI...'')]),
      ProcessAudioCall
        (JObj [(''sessionId'', JStr ''s1''),
               (''audioPath'', JStr ''recordings/s1/recording_audio.webm''),
               (''rawTranscript'', JStr ''hello''), (''domEvents'', JArr [])]),
      UpdateCall ''s1''
        [(''refinedScript'', refinedScript_of demo_transcription demo_response),
         (''status'', JStr ''synthesizing'')] NoSuchSession,
      Emit ''refinement_ready''
        (JObj [(''sessionId'', JStr ''s1''),
               (''refinedScript'', refinedScript_of demo_transcription demo_response)]),
      Emit ''session_status''
        (JObj [(''sessionId'', JStr ''s1''), (''status'', JStr ''synthesizing''),
               (''message'', JStr ''Generating AI voiceover with ElevenLabs...'')]),
      UpdateCall ''s1''
        [(''synthesizedAudioPath'', JStr ''recordings/s1/voice.mp3''),
         (''status'', JStr ''completed''), (''processedAt'', JStr ''t1'')] NoSuchSession,
      Emit ''synthesis_ready''
        (JObj [(''sessionId'', JStr ''s1''), (''audioPath'', JStr ''recordings/s1/voice.mp3'')]),
      Emit ''session_status''
        (JObj [(''sessionId'', JStr ''s1''), (''status'', JStr ''completed''),
               (''message'', JStr ''Processing complete!'')]),
      Emit ''session_complete'' (JObj [(''sessionId'', JStr ''s1'')])]"
  by (simp add: demo_deleted_world_eq pipeline_defs demo_gateways_def demo_stopped_def
      demo_transcription_def demo_response_def)

section \<open>Processing Pipeline: the claims\<close>




text \<open>
  C7. In a run in which the health probe is made and answers \<^verbatim>\<open>false\<close>, for a session
  that the store holds and with the store writes succeeding, \<open>process\<close> returns normally and
  the stored record has the status \<^verbatim>\<open>completed\<close> and \<^verbatim>\<open>processedAt\<close> set to the time of
  the run; its \<^verbatim>\<open>refinedScript\<close> field is what it was before the run, and no action of the
  run belongs to the enrichment stages: no call of the refine-and-synthesize operation, no
  store update with the status \<^verbatim>\<open>refining\<close> or \<^verbatim>\<open>synthesizing\<close> or with a
  \<^verbatim>\<open>refinedScript\<close>, no broadcast of these.
\<close>

theorem unavailable_gateway_completes:
  assumes probe: "HealthCheckCall False \<in> set (run_of env session w)"
    and ex: "stored (sessionId_of session) w = Some s"
    and ok: "writes_succeed 2 w"
  shows "\<exists>w' final.
           process env session w = (Inr (), w') \<and>
           getSession (sessionId_of session) w' = Some final \<and>
           map_of final ''status'' = Some (JStr ''completed'') \<and>
           map_of final ''processedAt'' = Some (JStr (now w)) \<and>
           map_of final ''refinedScript'' = map_of s ''refinedScript'' \<and>
           (\<forall>a \<in> set (run_of env session w). \<not> enriches a)"
proof -
  let ?sid = "sessionId_of session"
  let ?w1 = "emitStatus ?sid ''transcribing'' ''Transcribing audio with Deepgram...'' w"
  let ?none = "\<lparr>rawText = [], words = JArr [], confidence = JNum 0, duration = JNum 0\<rparr>"
  from probe have nh: "\<not> healthCheck env"
    using probe_reports by blast
  from ok have ok1: "writes_succeed (Suc 1) w" by (simp add: numeral_2_eq_2)
  then have ok0: "writes_succeed (Suc 0) w"
    by (rule writes_succeed_mono) simp
  have direct: "\<exists>w' final.
           process env session w = (Inr (), w') \<and>
           getSession ?sid w' = Some final \<and>
           map_of final ''status'' = Some (JStr ''completed'') \<and>
           map_of final ''processedAt'' = Some (JStr (now w)) \<and>
           map_of final ''refinedScript'' = map_of s ''refinedScript'' \<and>
           (\<forall>a \<in> set (run_of env session w). \<not> enriches a)"
    if run: "process_try env session w = enrich env session t w0"
      and ex0: "stored ?sid w0 = Some old" and ok0': "writes_succeed (Suc 0) w0"
      and old: "map_of old ''refinedScript'' = map_of s ''refinedScript''"
      and tr0: "trace w0 = trace w @ pre" and pre: "\<forall>a \<in> set pre. \<not> enriches a"
      and now0: "now w0 = now w"
    for t w0 old pre
  proof -
    let ?wp = "called (HealthCheckCall False) w0"
    have e: "enrich env session t w0 = complete_without_ai ?sid ?wp"
      using nh by (simp add: enrich_def Let_def)
    have exp: "stored ?sid ?wp = Some old" using ex0 by simp
    have okp: "writes_succeed (Suc 0) ?wp" using ok0' by simp
    from complete_without_ai_ok [OF exp okp]
    obtain w' where c: "complete_without_ai ?sid ?wp = (Inr (), w')"
      and g': "stored ?sid w' =
                Some (spread old [(''status'', JStr ''completed''), (''processedAt'', JStr (now ?wp))])"
      and t: "trace w' = trace ?wp @
                [Emit ''session_status''
                   (JObj [(''sessionId'', JStr ?sid), (''status'', JStr ''completed''),
                          (''message'', JStr ''Processing complete (AI services unavailable)'')]),
                 UpdateCall ?sid [(''status'', JStr ''completed''), (''processedAt'', JStr (now ?wp))] Merged,
                 Emit ''session_complete'' (JObj [(''sessionId'', JStr ?sid)])]"
      by blast
    note g = getSession_stored [OF g']
    have p: "process env session w = (Inr (), w')"
      by (simp add: process_def run e c)
    have "\<forall>a \<in> set (run_of env session w). \<not> enriches a"
      using pre by (simp add: run_of_def p t tr0)
    moreover have "map_of (spread old [(''status'', JStr ''completed''), (''processedAt'', JStr (now ?wp))])
                     ''refinedScript'' = map_of s ''refinedScript''"
      by (simp add: map_of_spread old)
    ultimately show ?thesis
      using p g now0 by (simp add: map_of_spread)
  qed
  show ?thesis
  proof (cases "audioPath_of session \<noteq> [] \<and> isConfigured env")
    case True
    let ?w2 = "called (TranscribeCall (audioPath_of session)) ?w1"
    show ?thesis
    proof (cases "transcribeFile env (audioPath_of session)")
      case (Inl e)
      let ?U = "[(''status'', JStr ''error''), (''error'', JStr (message e))]"
      have pt: "process_try env session w = (Inl e, ?w2)"
        using True Inl by (simp add: process_try_def Let_def)
      have ex2: "stored ?sid ?w2 = Some s" using ex by simp
      have ok2: "writes_succeed (Suc 0) ?w2" using ok0 by simp
      from await_update_ok [OF ex2 ok2, of ?U]
      obtain w3 where a: "await_update ?sid ?U ?w2 = (Inr (Some (spread s ?U)), w3)"
        and t3: "trace w3 = trace ?w2 @ [UpdateCall ?sid ?U Merged]"
        by blast
      have "HealthCheckCall False \<notin> set (run_of env session w)"
        by (simp add: run_of_def process_def pt a t3)
      with probe show ?thesis by contradiction
    next
      case (Inr tr)
      let ?U = "[(''transcription'', json_of_transcription tr), (''status'', JStr ''transcribing'')]"
      have ex2: "stored ?sid ?w2 = Some s" using ex by simp
      have ok2: "writes_succeed (Suc 1) ?w2" using ok1 by simp
      from await_update_ok [OF ex2 ok2, of ?U]
      obtain w3 where a: "await_update ?sid ?U ?w2 = (Inr (Some (spread s ?U)), w3)"
        and g3: "stored ?sid w3 = Some (spread s ?U)"
        and ok3: "writes_succeed 1 w3"
        and t3: "trace w3 = trace ?w2 @ [UpdateCall ?sid ?U Merged]"
        and n3: "now w3 = now w"
        by auto
      let ?w4 = "emit ''transcription_ready''
                   (JObj [(''sessionId'', JStr ?sid),
                          (''transcription'', json_of_transcription tr)]) w3"
      have run: "process_try env session w = enrich env session tr ?w4"
        using True Inr a by (simp add: process_try_def Let_def)
      show ?thesis
      proof (rule direct [OF run])
        show "stored ?sid ?w4 = Some (spread s ?U)" using g3 by simp
        show "writes_succeed (Suc 0) ?w4" using ok3 by simp
        show "map_of (spread s ?U) ''refinedScript'' = map_of s ''refinedScript''"
          by (simp add: map_of_spread)
        show "trace ?w4 = trace w @
                [Emit ''session_status''
                   (JObj [(''sessionId'', JStr ?sid), (''status'', JStr ''transcribing''),
                          (''message'', JStr ''Transcribing audio with Deepgram...'')]),
                 TranscribeCall (audioPath_of session),
                 UpdateCall ?sid ?U Merged,
                 Emit ''transcription_ready''
                   (JObj [(''sessionId'', JStr ?sid),
                          (''transcription'', json_of_transcription tr)])]"
          by (simp add: t3)
        show "\<forall>a \<in> set [Emit ''session_status''
                   (JObj [(''sessionId'', JStr ?sid), (''status'', JStr ''transcribing''),
                          (''message'', JStr ''Transcribing audio with Deepgram...'')]),
                 TranscribeCall (audioPath_of session),
                 UpdateCall ?sid ?U Merged,
                 Emit ''transcription_ready''
                   (JObj [(''sessionId'', JStr ?sid),
                          (''transcription'', json_of_transcription tr)])]. \<not> enriches a"
          by simp
        show "now ?w4 = now w" using n3 by simp
      qed
    qed
  next
    case False
    show ?thesis
    proof (cases "isConfigured env")
      case True
      have run: "process_try env session w = enrich env session ?none ?w1"
        using False True by (simp add: process_try_def Let_def)
      show ?thesis
      proof (rule direct [OF run])
        show "stored ?sid ?w1 = Some s" using ex by simp
        show "writes_succeed (Suc 0) ?w1" using ok0 by simp
        show "map_of s ''refinedScript'' = map_of s ''refinedScript''" ..
        show "trace ?w1 = trace w @
                [Emit ''session_status''
                   (JObj [(''sessionId'', JStr ?sid), (''status'', JStr ''transcribing''),
                          (''message'', JStr ''Transcribing audio with Deepgram...'')])]"
          by simp
        show "\<forall>a \<in> set [Emit ''session_status''
                   (JObj [(''sessionId'', JStr ?sid), (''status'', JStr ''transcribing''),
                          (''message'', JStr ''Transcribing audio with Deepgram...'')])]. \<not> enriches a"
          by simp
        show "now ?w1 = now w" by simp
      qed
    next
      case nc: False
      let ?w2 = "emitStatus ?sid ''transcribing'' ''Deepgram not configured, skipping...'' ?w1"
      have run: "process_try env session w = enrich env session ?none ?w2"
        using nc by (simp add: process_try_def Let_def)
      show ?thesis
      proof (rule direct [OF run])
        show "stored ?sid ?w2 = Some s" using ex by simp
        show "writes_succeed (Suc 0) ?w2" using ok0 by simp
        show "map_of s ''refinedScript'' = map_of s ''refinedScript''" ..
        show "trace ?w2 = trace w @
                [Emit ''session_status''
                   (JObj [(''sessionId'', JStr ?sid), (''status'', JStr ''transcribing''),
                          (''message'', JStr ''Transcribing audio with Deepgram...'')]),
                 Emit ''session_status''
                   (JObj [(''sessionId'', JStr ?sid), (''status'', JStr ''transcribing''),
                          (''message'', JStr ''Deepgram not configured, skipping...'')])]"
          by simp
        show "\<forall>a \<in> set [Emit ''session_status''
                   (JObj [(''sessionId'', JStr ?sid), (''status'', JStr ''transcribing''),
                          (''message'', JStr ''Transcribing audio with Deepgram...'')]),
                 Emit ''session_status''
                   (JObj [(''sessionId'', JStr ?sid), (''status'', JStr ''transcribing''),
                          (''message'', JStr ''Deepgram not configured, skipping...'')])]. \<not> enriches a"
          by simp
        show "now ?w2 = now w" by simp
      qed
    qed
  qed
qed

theorem unavailable_gateway_completes_witness:
  "HealthCheckCall False \<in> set (run_of (demo_gateways False) demo_stopped demo_pipeline_world) \<and>
   stored (sessionId_of demo_stopped) demo_pipeline_world = Some demo_stopped \<and>
   writes_succeed 2 demo_pipeline_world \<and>
   (\<exists>w' final.
      process (demo_gateways False) demo_stopped demo_pipeline_world = (Inr (), w') \<and>
      getSession ''s1'' w' = Some final \<and>
      map_of final ''status'' = Some (JStr ''completed'') \<and>
      map_of final ''processedAt'' = Some (JStr ''t1'') \<and>
      map_of final ''refinedScript'' = None)"
proof -
  have sid: "sessionId_of demo_stopped = ''s1''"
    by (simp add: sessionId_of_def demo_stopped_def)
  have h1: "HealthCheckCall False \<in> set (run_of (demo_gateways False) demo_stopped demo_pipeline_world)"
    by (simp add: demo_run_unavailable)
  have h2: "stored (sessionId_of demo_stopped) demo_pipeline_world = Some demo_stopped"
    by (simp add: sid stored_def loadSessions_def demo_pipeline_world_def demo_store_def)
  have h3: "writes_succeed 2 demo_pipeline_world"
    by (simp add: writes_succeed_def demo_pipeline_world_def)
  have nw: "now demo_pipeline_world = ''t1''" by (simp add: demo_pipeline_world_def)
  have rs: "map_of demo_stopped ''refinedScript'' = None" by (simp add: demo_stopped_def)
  from unavailable_gateway_completes [OF h1 h2 h3]
  show ?thesis using h1 h2 h3 by (auto simp: sid nw rs)
qed
text \<open>
  C8, as the code has it. The session is deleted while its pipeline run is suspended at an
  \<^verbatim>\<open>await\<close> (at any of them, the deletion falling outside the store updates of the run), or
  is gone when the run starts; its id is not the name of an inherited property. Every
  store-update call that the run makes after the deletion returns \<^verbatim>\<open>null\<close>, and a call that
  returns \<^verbatim>\<open>null\<close> leaves the store as it is. The run does not stop at that: it returns
  normally, its last action is the \<^verbatim>\<open>session_complete\<close> or the \<^verbatim>\<open>error\<close> broadcast, and
  the session is absent from the store at its end.
\<close>

theorem deleted_session_run:
  assumes ordinary: "sessionId_of session \<notin> set inherited"
    and start: "gone \<longrightarrow> getSession (sessionId_of session) w = None"
  shows "null_after_deletion gone
           (run_amid (deleting_at points (sessionId_of session)) env session w) \<and>
         (\<forall>updates v. getSession (sessionId_of session) v = None \<longrightarrow>
            updateSession (sessionId_of session) updates (v :: pipeline_world) = (Inr None, v)) \<and>
         (gone \<or> deleted_in (run_amid (deleting_at points (sessionId_of session)) env session w) \<longrightarrow>
            fst (process_amid (deleting_at points (sessionId_of session)) env session w) = Inr () \<and>
            getSession (sessionId_of session)
              (snd (process_amid (deleting_at points (sessionId_of session)) env session w)) = None \<and>
            (\<exists>payload.
               last (run_amid (deleting_at points (sessionId_of session)) env session w) =
                 Emit ''session_complete'' payload \<or>
               last (run_amid (deleting_at points (sessionId_of session)) env session w) =
                 Emit ''error'' payload))"
proof -
  let ?sid = "sessionId_of session"
  let ?others = "deleting_at points ?sid"
  have upd: "\<forall>updates v. getSession ?sid v = None \<longrightarrow>
               updateSession ?sid updates (v :: pipeline_world) = (Inr None, v)"
    by (simp add: updateSession_absent)
  have s0: "stretch ?sid gone w [] w"
    using start by (rule stretch_start)
  from process_try_amid_stretch [OF s0 ordinary, of points env]
  obtain res w' more where pt: "process_try_amid ?others env session w = (res, w')"
    and s1: "stretch ?sid gone w more w'"
    and fin: "res = Inr () \<longrightarrow>
                more \<noteq> [] \<and> (\<exists>payload. last more = Emit ''session_complete'' payload)"
    by auto
  show ?thesis
  proof (cases res)
    case (Inr u)
    then have p: "process_amid ?others env session w = (Inr (), w')"
      using pt by (simp add: process_amid_def)
    have run: "run_amid ?others env session w = more"
      using s1 by (simp add: run_amid_def p stretch_def)
    from Inr fin have "\<exists>payload. last more = Emit ''session_complete'' payload" by simp
    then show ?thesis
      using upd s1 by (auto simp: run p stretch_def)
  next
    case (Inl err)
    let ?U = "[(''status'', JStr ''error''), (''error'', JStr (message err))]"
    from stretch_others [OF s1 ordinary]
    obtain hs where s2: "stretch ?sid gone w (more @ hs) (?others AwaitSaveError w')"
      by blast
    obtain r2 w2 where aw: "await_update ?sid ?U (?others AwaitSaveError w') = (r2, w2)"
      by (cases "await_update ?sid ?U (?others AwaitSaveError w')")
    note s3 = stretch_update [OF s2 aw]
    show ?thesis
    proof (cases r2)
      case e: (Inl e)
      have p: "process_amid ?others env session w = (Inl e, w2)"
        using pt Inl aw e by (simp add: process_amid_def)
      have run: "run_amid ?others env session w = (more @ hs) @ [UpdateCall ?sid ?U Threw]"
        using s3 e by (simp add: run_amid_def p stretch_def)
      have "\<not> (gone \<or> deleted_in (more @ hs))"
        using s3 e by (auto simp: stretch_def null_after_deletion_append)
      then show ?thesis
        using upd s3 e by (simp add: run stretch_def)
    next
      case x: (Inr x)
      let ?p = "JObj [(''sessionId'', JStr ?sid), (''error'', JStr (message err))]"
      have p: "process_amid ?others env session w = (Inr (), emit ''error'' ?p w2)"
        using pt Inl aw x by (simp add: process_amid_def)
      note s4 = stretch_emit [OF s3, of "''error''" ?p]
      have run: "run_amid ?others env session w =
                   ((more @ hs) @ [UpdateCall ?sid ?U (outcome r2)]) @ [Emit ''error'' ?p]"
        using s4 by (simp add: run_amid_def p stretch_def)
      show ?thesis
        unfolding run p using upd s4 by (simp add: stretch_def)
    qed
  qed
qed

theorem deleted_session_run_witness:
  "sessionId_of demo_stopped \<notin> set inherited \<and>
   deleted_in (run_amid (deleting_at [AwaitHealth] ''s1'') (demo_gateways True) demo_stopped
                 demo_pipeline_world) \<and>
   UpdateCall ''s1''
        [(''transcription'', json_of_transcription demo_transcription),
         (''status'', JStr ''transcribing'')] Merged
     \<in> set (run_amid (deleting_at [AwaitHealth] ''s1'') (demo_gateways True) demo_stopped
              demo_pipeline_world) \<and>
   null_after_deletion False
     (run_amid (deleting_at [AwaitHealth] ''s1'') (demo_gateways True) demo_stopped
        demo_pipeline_world) \<and>
   fst (process_amid (deleting_at [AwaitHealth] ''s1'') (demo_gateways True) demo_stopped
          demo_pipeline_world) = Inr () \<and>
   getSession ''s1''
     (snd (process_amid (deleting_at [AwaitHealth] ''s1'') (demo_gateways True) demo_stopped
             demo_pipeline_world)) = None \<and>
   last (run_amid (deleting_at [AwaitHealth] ''s1'') (demo_gateways True) demo_stopped
           demo_pipeline_world) =
     Emit ''session_complete'' (JObj [(''sessionId'', JStr ''s1'')])"
proof -
  have sid: "sessionId_of demo_stopped = ''s1''"
    by (simp add: sessionId_of_def demo_stopped_def)
  have h1: "sessionId_of demo_stopped \<notin> set inherited"
    by (simp add: sid inherited_def)
  have h2: "False \<longrightarrow> getSession (sessionId_of demo_stopped) demo_pipeline_world = None"
    by simp
  have d: "deleted_in (run_amid (deleting_at [AwaitHealth] ''s1'') (demo_gateways True) demo_stopped
                 demo_pipeline_world)"
    by (simp add: demo_run_amid)
  have m: "UpdateCall ''s1''
        [(''transcription'', json_of_transcription demo_transcription),
         (''status'', JStr ''transcribing'')] Merged
     \<in> set (run_amid (deleting_at [AwaitHealth] ''s1'') (demo_gateways True) demo_stopped
              demo_pipeline_world)"
    by (simp add: demo_run_amid)
  have l: "last (run_amid (deleting_at [AwaitHealth] ''s1'') (demo_gateways True) demo_stopped
           demo_pipeline_world) =
     Emit ''session_complete'' (JObj [(''sessionId'', JStr ''s1'')])"
    by (simp add: demo_run_amid)
  from deleted_session_run [OF h1 h2, of "[AwaitHealth]" "demo_gateways True"]
  show ?thesis using h1 d m l by (simp add: sid)
qed

text \<open>
  C8 as stated fails: the session \<^verbatim>\<open>s1\<close> is deleted, and the run of the pipeline for it does
  not stop at the first store update that comes back not-found: it goes on to call the
  refine-and-synthesize operation and makes two more store-update calls.
\<close>

theorem deleted_session_counterexample:
  "fst (deleteSession ''s1'' demo_pipeline_world) = Inr True \<and>
   getSession ''s1'' demo_deleted_world = None \<and>
   \<not> abandons_after_not_found (run_of (demo_gateways True) demo_stopped demo_deleted_world) \<and>
   length (filter is_update (run_of (demo_gateways True) demo_stopped demo_deleted_world)) = 3"
proof -
  have "fst (deleteSession ''s1'' demo_pipeline_world) = Inr True"
    by (simp add: deleteSession_def lookup_def saveSessions_def writeFile_def loadSessions_def
        demo_pipeline_world_def demo_store_def Let_def)
  moreover have "getSession ''s1'' demo_deleted_world = None"
    by (simp add: demo_deleted_world_eq getSession_def lookup_def inherited_def loadSessions_def)
  ultimately show ?thesis
    by (simp add: demo_run_deleted)
qed

end
